theory Spec2Isabelle
  imports Complex_Main "HOL-Library.Multiset"
begin

section \<open>Strings\<close>

text \<open>
  A JavaScript string is a sequence of UTF-16 code units. It is modelled as a \<open>string\<close>
  whose characters are the code units below 256 (\<open>CHR 0xE7\<close> is U+00E7); code units
  from 256 on have no counterpart in this type. On these code units
  \<open>String.prototype.toLowerCase\<close> maps A to Z and the capital letters U+00C0 to U+00DE,
  the multiplication sign U+00D7 apart, to the code unit 32 above, and leaves every
  other one alone; \<open>String.prototype.trim\<close> strips, at both ends, the white space and
  line terminators U+0009 to U+000D, U+0020 and U+00A0. \<open>includes_str\<close> is the
  substring test of \<open>String.prototype.includes\<close>, and \<open>ascii\<close> says that a string has
  no code unit from 128 on.
\<close>

definition toLowerCase_char :: "char \<Rightarrow> char" where
  "toLowerCase_char c =
     (case map_of
             (zip (''ABCDEFGHIJKLMNOPQRSTUVWXYZ'' @
                   [CHR 0xC0, CHR 0xC1, CHR 0xC2, CHR 0xC3, CHR 0xC4, CHR 0xC5, CHR 0xC6, CHR 0xC7,
                    CHR 0xC8, CHR 0xC9, CHR 0xCA, CHR 0xCB, CHR 0xCC, CHR 0xCD, CHR 0xCE, CHR 0xCF,
                    CHR 0xD0, CHR 0xD1, CHR 0xD2, CHR 0xD3, CHR 0xD4, CHR 0xD5, CHR 0xD6,
                    CHR 0xD8, CHR 0xD9, CHR 0xDA, CHR 0xDB, CHR 0xDC, CHR 0xDD, CHR 0xDE])
                  (''abcdefghijklmnopqrstuvwxyz'' @
                   [CHR 0xE0, CHR 0xE1, CHR 0xE2, CHR 0xE3, CHR 0xE4, CHR 0xE5, CHR 0xE6, CHR 0xE7,
                    CHR 0xE8, CHR 0xE9, CHR 0xEA, CHR 0xEB, CHR 0xEC, CHR 0xED, CHR 0xEE, CHR 0xEF,
                    CHR 0xF0, CHR 0xF1, CHR 0xF2, CHR 0xF3, CHR 0xF4, CHR 0xF5, CHR 0xF6,
                    CHR 0xF8, CHR 0xF9, CHR 0xFA, CHR 0xFB, CHR 0xFC, CHR 0xFD, CHR 0xFE])) c of
        Some l \<Rightarrow> l
      | None \<Rightarrow> c)"

definition toLowerCase :: "string \<Rightarrow> string" where
  "toLowerCase s = map toLowerCase_char s"

definition is_space :: "char \<Rightarrow> bool" where
  "is_space c =
     (c \<in> set [CHR 0x09, CHR 0x0A, CHR 0x0B, CHR 0x0C, CHR 0x0D, CHR '' '', CHR 0xA0])"

definition trim :: "string \<Rightarrow> string" where
  "trim s = rev (dropWhile is_space (rev (dropWhile is_space s)))"




section \<open>Identifiers\<close>

text \<open>
  \<open>z.string().uuid()\<close> accepts the 8-4-4-4-12 hexadecimal layout in either case. The
  store's \<open>uuid\<close> type compares the 128-bit value and prints it in lower case, so a
  value of that type is modelled as its canonical lower-case text and \<open>uuid_in\<close> is the
  conversion the store applies to a text parameter.
\<close>

definition is_hex :: "char \<Rightarrow> bool" where
  "is_hex c = (c \<in> set ''0123456789abcdefABCDEF'')"

fun uuid_groups :: "nat list \<Rightarrow> string \<Rightarrow> bool" where
  "uuid_groups [] s = (s = [])"
| "uuid_groups [n] s = (length s = n \<and> list_all is_hex s)"
| "uuid_groups (n # m # ns) s =
     (length (take n s) = n \<and> list_all is_hex (take n s) \<and>
      (case drop n s of [] \<Rightarrow> False | c # r \<Rightarrow> c = CHR ''-'' \<and> uuid_groups (m # ns) r))"

definition is_uuid :: "string \<Rightarrow> bool" where
  "is_uuid s = uuid_groups [8, 4, 4, 4, 12] s"

type_synonym uuid = string

definition uuid_in :: "string \<Rightarrow> uuid" where
  "uuid_in s = toLowerCase s"

section \<open>Request bodies and validators\<close>

text \<open>
  A request body is the JSON value \<open>express.json()\<close> hands to the handler. The fields of
  an object are looked up by key with \<open>map_of\<close>.
\<close>

datatype json =
    JNull
  | JBool bool
  | JNum real
  | JStr string
  | JArr "json list"
  | JObj "(string \<times> json) list"

text \<open>
  The validators of \<open>validators.ts\<close> are built from five zod combinators:
  \<open>z.string().min(n)\<close> (\<open>z.string()\<close> is \<open>ZString 0\<close>), \<open>z.string().uuid()\<close>,
  \<open>z.number()\<close>, \<open>z.enum([...])\<close> and \<open>.optional()\<close>. A field that is missing from
  the input is the value \<open>None\<close> (JavaScript's \<open>undefined\<close>); only \<open>.optional()\<close>
  accepts it, and nothing accepts \<open>null\<close>. None of the combinators transforms its
  input, so an accepted value is its own output.
\<close>

datatype ztype =
    ZString nat
  | ZUuid
  | ZNumber
  | ZEnum "string list"
  | ZOptional ztype

fun accepts :: "ztype \<Rightarrow> json option \<Rightarrow> bool" where
  "accepts (ZString n) (Some (JStr s)) = (n \<le> length s)"
| "accepts ZUuid (Some (JStr s)) = is_uuid s"
| "accepts ZNumber (Some (JNum r)) = True"
| "accepts (ZEnum vs) (Some (JStr s)) = (s \<in> set vs)"
| "accepts (ZOptional t) None = True"
| "accepts (ZOptional t) (Some v) = accepts t (Some v)"
| "accepts t v = False"

type_synonym zobject = "(string \<times> ztype) list"

text \<open>
  \<open>z.object(shape)\<close> in its default mode: the input must be an object, every key of
  the shape is validated against its type, and the output holds the keys of the shape
  that the input has, in the order of the shape. Keys of the input that the shape does
  not name are dropped from the output; they are not an error. On failure the
  flattened error lists the fields that failed.
\<close>

datatype zod_error = FormErrors | FieldErrors "string list"

definition safeParse :: "zobject \<Rightarrow> json \<Rightarrow> zod_error + (string \<times> json) list" where
  "safeParse shape body =
     (case body of
        JObj fields \<Rightarrow>
          (let bad = [k. (k, t) \<leftarrow> shape, \<not> accepts t (map_of fields k)] in
           if bad = []
           then Inr [(k, v). (k, t) \<leftarrow> shape, v \<leftarrow> (case map_of fields k of None \<Rightarrow> [] | Some v \<Rightarrow> [v])]
           else Inl (FieldErrors bad))
      | _ \<Rightarrow> Inl FormErrors)"

definition partial :: "zobject \<Rightarrow> zobject" where
  "partial shape = map (\<lambda>(k, t). (k, ZOptional t)) shape"

definition deviceCreateSchema :: zobject where
  "deviceCreateSchema =
     [(''name'', ZString 2),
      (''type'', ZEnum [''hub'', ''switch'', ''router'', ''ap'', ''server'']),
      (''ip'', ZOptional (ZString 0)),
      (''status'', ZOptional (ZEnum [''up'', ''warn'', ''down''])),
      (''x'', ZOptional ZNumber),
      (''y'', ZOptional ZNumber)]"

definition deviceUpdateSchema :: zobject where
  "deviceUpdateSchema = partial deviceCreateSchema"

definition devicePositionSchema :: zobject where
  "devicePositionSchema = [(''x'', ZNumber), (''y'', ZNumber)]"

definition linkCreateSchema :: zobject where
  "linkCreateSchema =
     [(''fromId'', ZUuid),
      (''toId'', ZUuid),
      (''status'', ZOptional (ZEnum [''up'', ''warn'', ''down''])),
      (''label'', ZOptional (ZString 0)),
      (''fromHandle'', ZOptional (ZString 0)),
      (''toHandle'', ZOptional (ZString 0))]"

definition linkUpdateSchema :: zobject where
  "linkUpdateSchema =
     partial
       [(''status'', ZOptional (ZEnum [''up'', ''warn'', ''down''])),
        (''label'', ZOptional (ZString 0)),
        (''fromHandle'', ZOptional (ZString 0)),
        (''toHandle'', ZOptional (ZString 0))]"

section \<open>The store\<close>

text \<open>
  The two tables of \<open>ensureSchema\<close> (db.ts). A column carries the initial of its table
  as a prefix (\<open>d_status\<close> is \<open>devices.status\<close>, \<open>l_status\<close> is \<open>links.status\<close>). A
  nullable column is an \<open>option\<close>, a \<open>double precision\<close> column holds a \<open>real\<close> (the
  handlers only store and return coordinates), and \<open>created_at\<close> is a point on the
  clock of the store. A table is the list of its rows in insertion order.
\<close>

record device =
  d_id :: uuid
  d_name :: string
  d_type :: string
  d_ip :: "string option"
  d_status :: string
  d_x :: real
  d_y :: real
  d_created_at :: nat

record link =
  l_id :: uuid
  l_from_id :: uuid
  l_to_id :: uuid
  l_status :: string
  l_label :: "string option"
  l_from_handle :: "string option"
  l_to_handle :: "string option"
  l_created_at :: nat

record db =
  devices :: "device list"
  links :: "link list"

text \<open>
  What the store chooses on an insert: the value of \<open>gen_random_uuid()\<close> and of
  \<open>now()\<close>.
\<close>

record env =
  gen_random_uuid :: uuid
  now :: nat

datatype sqlstate =
    unique_violation  \<comment> \<open>23505\<close>
  | foreign_key_violation  \<comment> \<open>23503\<close>
  | check_violation  \<comment> \<open>23514\<close>
  | not_null_violation  \<comment> \<open>23502\<close>
  | invalid_text_representation  \<comment> \<open>22P02\<close>
  | undefined_column  \<comment> \<open>42703\<close>

text \<open>
  Modelled from the spec: the enumerated types \<open>device_type\<close>, \<open>device_status\<close> and
  \<open>link_status\<close> that the statements of routes.ts cast their parameters to are declared
  nowhere in the source; their labels are the closed enumerations of the data model,
  which are also the values of the \<open>CHECK\<close> constraints of \<open>ensureSchema\<close>.
\<close>

definition device_type :: "string list" where
  "device_type = [''hub'', ''switch'', ''router'', ''ap'', ''server'']"

definition device_status :: "string list" where
  "device_status = [''up'', ''warn'', ''down'']"

definition link_status :: "string list" where
  "link_status = [''up'', ''warn'', ''down'']"

text \<open>\<open>$n::t\<close> for an enumerated type \<open>t\<close>: NULL stays NULL, a label is kept, any other text is an error.\<close>

definition cast_enum :: "string list \<Rightarrow> string option \<Rightarrow> sqlstate + string option" where
  "cast_enum labels v =
     (case v of
        None \<Rightarrow> Inr None
      | Some s \<Rightarrow> if s \<in> set labels then Inr (Some s) else Inl invalid_text_representation)"

definition coalesce :: "'a option \<Rightarrow> 'a \<Rightarrow> 'a" where
  "coalesce v d = (case v of None \<Rightarrow> d | Some a \<Rightarrow> a)"

text \<open>
  A JavaScript value bound to a statement parameter: \<open>null\<close> and \<open>undefined\<close> are NULL.
  Behind its validator every field has its declared type, a string for a text or
  enumerated column and a number for a coordinate.
\<close>

fun text_param :: "json option \<Rightarrow> string option" where
  "text_param (Some (JStr s)) = Some s"
| "text_param v = None"

fun float_param :: "json option \<Rightarrow> real option" where
  "float_param (Some (JNum r)) = Some r"
| "float_param v = None"

text \<open>The \<open>CHECK\<close> constraints of the two tables.\<close>

definition devices_check :: "device \<Rightarrow> bool" where
  "devices_check d =
     (d_type d \<in> set [''hub'', ''switch'', ''router'', ''ap'', ''server''] \<and>
      d_status d \<in> set [''up'', ''warn'', ''down''])"

definition links_check :: "link \<Rightarrow> bool" where
  "links_check l = (l_status l \<in> set [''up'', ''warn'', ''down''])"

text \<open>
  The unique index \<open>links_unique\<close> on \<open>(from_id, to_id, from_handle, to_handle)\<close>. The
  index is declared without \<open>NULLS NOT DISTINCT\<close>, so a key with a NULL component
  equals no other key: two rows collide only when all four components are equal and
  both handles are present.
\<close>

definition links_unique :: "link \<Rightarrow> link \<Rightarrow> bool" where
  "links_unique a b =
     (l_from_id a = l_from_id b \<and> l_to_id a = l_to_id b \<and>
      l_from_handle a \<noteq> None \<and> l_from_handle a = l_from_handle b \<and>
      l_to_handle a \<noteq> None \<and> l_to_handle a = l_to_handle b)"

subsection \<open>Statements\<close>

text \<open>\<open>ORDER BY created_at ASC\<close>; rows of equal \<open>created_at\<close> stay in table order.\<close>

definition devices_by_created_at :: "db \<Rightarrow> device list" where
  "devices_by_created_at s = sort_key d_created_at (devices s)"

definition links_by_created_at :: "db \<Rightarrow> link list" where
  "links_by_created_at s = sort_key l_created_at (links s)"

text \<open>
  \<open>INSERT INTO devices (name, type, ip, status, x, y) VALUES ($1, $2::device_type, $3,
  COALESCE($4::device_status, 'up'), COALESCE($5, 0), COALESCE($6, 0)) RETURNING *\<close>.
  The new row takes \<open>id\<close> and \<open>created_at\<close> from their column defaults.
\<close>

definition insert_device ::
  "env \<Rightarrow> string option \<Rightarrow> string option \<Rightarrow> string option \<Rightarrow> string option \<Rightarrow>
   real option \<Rightarrow> real option \<Rightarrow> db \<Rightarrow> sqlstate + device \<times> db" where
  "insert_device e p1 p2 p3 p4 p5 p6 s =
     (case cast_enum device_type p2 of
        Inl err \<Rightarrow> Inl err
      | Inr ty \<Rightarrow>
          (case cast_enum device_status p4 of
             Inl err \<Rightarrow> Inl err
           | Inr st \<Rightarrow>
               (case (p1, ty) of
                  (Some n, Some t) \<Rightarrow>
                    (let row = \<lparr>d_id = gen_random_uuid e, d_name = n, d_type = t, d_ip = p3,
                                d_status = coalesce st ''up'', d_x = coalesce p5 0,
                                d_y = coalesce p6 0, d_created_at = now e\<rparr> in
                     if \<not> devices_check row then Inl check_violation
                     else if d_id row \<in> set (map d_id (devices s)) then Inl unique_violation
                     else Inr (row, s\<lparr>devices := devices s @ [row]\<rparr>))
                | _ \<Rightarrow> Inl not_null_violation)))"

text \<open>
  \<open>UPDATE t SET ... WHERE id=$1 RETURNING *\<close>: every row that satisfies \<open>P\<close> is replaced
  by its image under \<open>f\<close>, an error of \<open>f\<close> aborts the statement, and the result is the
  updated rows together with the new table.
\<close>

fun update_where :: "('r \<Rightarrow> bool) \<Rightarrow> ('r \<Rightarrow> sqlstate + 'r) \<Rightarrow> 'r list \<Rightarrow> sqlstate + 'r list \<times> 'r list" where
  "update_where P f [] = Inr ([], [])"
| "update_where P f (r # rs) =
     (if P r then
        (case f r of
           Inl err \<Rightarrow> Inl err
         | Inr r' \<Rightarrow>
             (case update_where P f rs of
                Inl err \<Rightarrow> Inl err
              | Inr (hit, rs') \<Rightarrow> Inr (r' # hit, r' # rs')))
      else
        (case update_where P f rs of
           Inl err \<Rightarrow> Inl err
         | Inr (hit, rs') \<Rightarrow> Inr (hit, r # rs')))"

text \<open>
  One assignment \<open>k=$n\<close> of the statement that \<open>PATCH /devices/:id\<close> builds, with the
  cast the handler appends for \<open>status\<close> and \<open>type\<close>.
\<close>

definition set_device :: "string \<Rightarrow> json \<Rightarrow> device \<Rightarrow> sqlstate + device" where
  "set_device k v d =
     (if k = ''name'' then
        (case text_param (Some v) of
           None \<Rightarrow> Inl not_null_violation
         | Some n \<Rightarrow> Inr (d\<lparr>d_name := n\<rparr>))
      else if k = ''type'' then
        (case cast_enum device_type (text_param (Some v)) of
           Inl err \<Rightarrow> Inl err
         | Inr None \<Rightarrow> Inl not_null_violation
         | Inr (Some t) \<Rightarrow> Inr (d\<lparr>d_type := t\<rparr>))
      else if k = ''ip'' then Inr (d\<lparr>d_ip := text_param (Some v)\<rparr>)
      else if k = ''status'' then
        (case cast_enum device_status (text_param (Some v)) of
           Inl err \<Rightarrow> Inl err
         | Inr None \<Rightarrow> Inl not_null_violation
         | Inr (Some t) \<Rightarrow> Inr (d\<lparr>d_status := t\<rparr>))
      else if k = ''x'' then
        (case float_param (Some v) of
           None \<Rightarrow> Inl not_null_violation
         | Some r \<Rightarrow> Inr (d\<lparr>d_x := r\<rparr>))
      else if k = ''y'' then
        (case float_param (Some v) of
           None \<Rightarrow> Inl not_null_violation
         | Some r \<Rightarrow> Inr (d\<lparr>d_y := r\<rparr>))
      else Inl undefined_column)"

fun set_devices :: "(string \<times> json) list \<Rightarrow> device \<Rightarrow> sqlstate + device" where
  "set_devices [] d = Inr d"
| "set_devices ((k, v) # es) d =
     (case set_device k v d of
        Inl err \<Rightarrow> Inl err
      | Inr d' \<Rightarrow> set_devices es d')"

definition update_device_row :: "(string \<times> json) list \<Rightarrow> device \<Rightarrow> sqlstate + device" where
  "update_device_row entries d =
     (case set_devices entries d of
        Inl err \<Rightarrow> Inl err
      | Inr d' \<Rightarrow> if devices_check d' then Inr d' else Inl check_violation)"

definition update_devices :: "uuid \<Rightarrow> (string \<times> json) list \<Rightarrow> db \<Rightarrow> sqlstate + device list \<times> db" where
  "update_devices uid entries s =
     (case update_where (\<lambda>d. d_id d = uid) (update_device_row entries) (devices s) of
        Inl err \<Rightarrow> Inl err
      | Inr (hit, ds) \<Rightarrow> Inr (hit, s\<lparr>devices := ds\<rparr>))"

text \<open>\<open>UPDATE devices SET x=$2, y=$3 WHERE id=$1 RETURNING *\<close>\<close>

definition update_device_position :: "uuid \<Rightarrow> real option \<Rightarrow> real option \<Rightarrow> db \<Rightarrow> sqlstate + device list \<times> db" where
  "update_device_position uid px py s =
     (case update_where (\<lambda>d. d_id d = uid)
             (\<lambda>d. case (px, py) of
                     (Some a, Some b) \<Rightarrow> Inr (d\<lparr>d_x := a, d_y := b\<rparr>)
                   | _ \<Rightarrow> Inl not_null_violation)
             (devices s) of
        Inl err \<Rightarrow> Inl err
      | Inr (hit, ds) \<Rightarrow> Inr (hit, s\<lparr>devices := ds\<rparr>))"

text \<open>
  \<open>DELETE FROM devices WHERE id=$1 RETURNING id\<close>. Both foreign keys of \<open>links\<close> are
  declared \<open>ON DELETE CASCADE\<close>: when a device row goes, so does every link row that
  references it from either column.
\<close>

definition delete_device_rows :: "uuid \<Rightarrow> db \<Rightarrow> uuid list \<times> db" where
  "delete_device_rows uid s =
     (let hit = filter (\<lambda>d. d_id d = uid) (devices s) in
      if hit = [] then ([], s)
      else (map d_id hit,
            s\<lparr>devices := filter (\<lambda>d. d_id d \<noteq> uid) (devices s),
              links := filter (\<lambda>l. l_from_id l \<noteq> uid \<and> l_to_id l \<noteq> uid) (links s)\<rparr>))"

text \<open>
  \<open>INSERT INTO links (from_id, to_id, status, label, from_handle, to_handle) VALUES ($1,
  $2, COALESCE($3::link_status, 'up'), $4, $5, $6) RETURNING *\<close>. The unique indexes
  (the primary key and \<open>links_unique\<close>) are checked when the row is inserted, the two
  foreign keys at the end of the statement.
\<close>

definition insert_link ::
  "env \<Rightarrow> string option \<Rightarrow> string option \<Rightarrow> string option \<Rightarrow> string option \<Rightarrow>
   string option \<Rightarrow> string option \<Rightarrow> db \<Rightarrow> sqlstate + link \<times> db" where
  "insert_link e p1 p2 p3 p4 p5 p6 s =
     (case cast_enum link_status p3 of
        Inl err \<Rightarrow> Inl err
      | Inr st \<Rightarrow>
          (case (p1, p2) of
             (Some f, Some t) \<Rightarrow>
               (let row = \<lparr>l_id = gen_random_uuid e, l_from_id = uuid_in f, l_to_id = uuid_in t,
                           l_status = coalesce st ''up'', l_label = p4, l_from_handle = p5,
                           l_to_handle = p6, l_created_at = now e\<rparr> in
                if \<not> links_check row then Inl check_violation
                else if l_id row \<in> set (map l_id (links s)) then Inl unique_violation
                else if list_ex (links_unique row) (links s) then Inl unique_violation
                else if l_from_id row \<notin> set (map d_id (devices s)) \<or>
                        l_to_id row \<notin> set (map d_id (devices s))
                then Inl foreign_key_violation
                else Inr (row, s\<lparr>links := links s @ [row]\<rparr>))
           | _ \<Rightarrow> Inl not_null_violation))"

text \<open>One assignment of the statement that \<open>PATCH /links/:id\<close> builds.\<close>

definition set_link :: "string \<Rightarrow> json \<Rightarrow> link \<Rightarrow> sqlstate + link" where
  "set_link k v l =
     (if k = ''status'' then
        (case cast_enum link_status (text_param (Some v)) of
           Inl err \<Rightarrow> Inl err
         | Inr None \<Rightarrow> Inl not_null_violation
         | Inr (Some t) \<Rightarrow> Inr (l\<lparr>l_status := t\<rparr>))
      else if k = ''label'' then Inr (l\<lparr>l_label := text_param (Some v)\<rparr>)
      else if k = ''from_handle'' then Inr (l\<lparr>l_from_handle := text_param (Some v)\<rparr>)
      else if k = ''to_handle'' then Inr (l\<lparr>l_to_handle := text_param (Some v)\<rparr>)
      else Inl undefined_column)"

fun set_links :: "(string \<times> json) list \<Rightarrow> link \<Rightarrow> sqlstate + link" where
  "set_links [] l = Inr l"
| "set_links ((k, v) # es) l =
     (case set_link k v l of
        Inl err \<Rightarrow> Inl err
      | Inr l' \<Rightarrow> set_links es l')"

definition update_link_row :: "link list \<Rightarrow> (string \<times> json) list \<Rightarrow> link \<Rightarrow> sqlstate + link" where
  "update_link_row others entries l =
     (case set_links entries l of
        Inl err \<Rightarrow> Inl err
      | Inr l' \<Rightarrow>
          if \<not> links_check l' then Inl check_violation
          else if list_ex (links_unique l') others then Inl unique_violation
          else Inr l')"

definition update_links :: "uuid \<Rightarrow> (string \<times> json) list \<Rightarrow> db \<Rightarrow> sqlstate + link list \<times> db" where
  "update_links uid entries s =
     (case update_where (\<lambda>l. l_id l = uid)
             (update_link_row (filter (\<lambda>l. l_id l \<noteq> uid) (links s)) entries) (links s) of
        Inl err \<Rightarrow> Inl err
      | Inr (hit, ls) \<Rightarrow> Inr (hit, s\<lparr>links := ls\<rparr>))"

text \<open>\<open>DELETE FROM links WHERE id=$1 RETURNING id\<close>\<close>

definition delete_link_rows :: "uuid \<Rightarrow> db \<Rightarrow> uuid list \<times> db" where
  "delete_link_rows uid s =
     (map l_id (filter (\<lambda>l. l_id l = uid) (links s)),
      s\<lparr>links := filter (\<lambda>l. l_id l \<noteq> uid) (links s)\<rparr>)"

section \<open>The handlers of routes.ts\<close>

text \<open>The wire format of \<open>GET /topology\<close> (api/topology.ts).\<close>

record DeviceNodeData =
  data_name :: string
  data_type :: string
  data_ip :: "string option"
  data_status :: string

record TopologyNode =
  n_id :: string
  n_type :: string
  n_position :: "real \<times> real"
  n_data :: DeviceNodeData

record TopologyEdge =
  e_id :: string
  e_source :: string
  e_target :: string
  e_label :: "string option"
  e_data_status :: "string option"
  e_sourceHandle :: "string option"
  e_targetHandle :: "string option"

datatype body =
    Message string
  | Flatten zod_error
  | DeviceRow device
  | DeviceRows "device list"
  | LinkRow link
  | LinkRows "link list"
  | Topology "TopologyNode list" "TopologyEdge list"
  | Health bool
  | NoContent

type_synonym response = "nat \<times> body"

text \<open>
  An error that a handler does not catch reaches the error middleware of index.ts.
\<close>

definition internal_server_error :: response where
  "internal_server_error = (500, Message ''Internal server error'')"

definition get_health :: "db \<Rightarrow> response \<times> db" where
  "get_health s = ((200, Health True), s)"

definition get_topology :: "db \<Rightarrow> response \<times> db" where
  "get_topology s =
     (let nodes = map (\<lambda>d. \<lparr>n_id = d_id d, n_type = ''device'', n_position = (d_x d, d_y d),
                             n_data = \<lparr>data_name = d_name d, data_type = d_type d,
                                       data_ip = d_ip d, data_status = d_status d\<rparr>\<rparr>)
                      (devices_by_created_at s);
          edges = map (\<lambda>l. \<lparr>e_id = l_id l, e_source = l_from_id l, e_target = l_to_id l,
                             e_label = l_label l, e_data_status = Some (l_status l),
                             e_sourceHandle = l_from_handle l, e_targetHandle = l_to_handle l\<rparr>)
                      (links_by_created_at s)
      in ((200, Topology nodes edges), s))"

definition get_devices :: "db \<Rightarrow> response \<times> db" where
  "get_devices s = ((200, DeviceRows (devices_by_created_at s)), s)"

definition get_device :: "string \<Rightarrow> db \<Rightarrow> response \<times> db" where
  "get_device id0 s =
     (if \<not> is_uuid id0 then ((400, Message ''Invalid id''), s)
      else (case filter (\<lambda>d. d_id d = uuid_in id0) (devices s) of
              [] \<Rightarrow> ((404, Message ''Device not found''), s)
            | r # rs \<Rightarrow> ((200, DeviceRow r), s)))"

definition post_devices :: "env \<Rightarrow> json \<Rightarrow> db \<Rightarrow> response \<times> db" where
  "post_devices e body s =
     (case safeParse deviceCreateSchema body of
        Inl err \<Rightarrow> ((400, Flatten err), s)
      | Inr data \<Rightarrow>
          (let name = map_of data ''name''; type = map_of data ''type''; ip = map_of data ''ip'';
               status = map_of data ''status''; x = map_of data ''x''; y = map_of data ''y''
           in case insert_device e (text_param name) (text_param type) (text_param ip)
                     (text_param status) (float_param x) (float_param y) s of
                Inl err \<Rightarrow> (internal_server_error, s)
              | Inr (row, s') \<Rightarrow> ((201, DeviceRow row), s')))"

definition device_allowed :: "string list" where
  "device_allowed = [''name'', ''type'', ''ip'', ''status'', ''x'', ''y'']"

definition patch_device :: "string \<Rightarrow> json \<Rightarrow> db \<Rightarrow> response \<times> db" where
  "patch_device id0 body s =
     (if \<not> is_uuid id0 then ((400, Message ''Invalid id''), s)
      else (case safeParse deviceUpdateSchema body of
              Inl err \<Rightarrow> ((400, Flatten err), s)
            | Inr fields0 \<Rightarrow>
                (let entries = filter (\<lambda>(k, v). k \<in> set device_allowed) fields0 in
                 if length entries = 0 then ((400, Message ''No fields to update''), s)
                 else (case update_devices (uuid_in id0) entries s of
                         Inl err \<Rightarrow> (internal_server_error, s)
                       | Inr ([], s') \<Rightarrow> ((404, Message ''Device not found''), s')
                       | Inr (r # rs, s') \<Rightarrow> ((200, DeviceRow r), s')))))"

definition patch_device_position :: "string \<Rightarrow> json \<Rightarrow> db \<Rightarrow> response \<times> db" where
  "patch_device_position id0 body s =
     (if \<not> is_uuid id0 then ((400, Message ''Invalid id''), s)
      else (case safeParse devicePositionSchema body of
              Inl err \<Rightarrow> ((400, Flatten err), s)
            | Inr data \<Rightarrow>
                (let x = map_of data ''x''; y = map_of data ''y''
                 in case update_device_position (uuid_in id0) (float_param x) (float_param y) s of
                      Inl err \<Rightarrow> (internal_server_error, s)
                    | Inr ([], s') \<Rightarrow> ((404, Message ''Device not found''), s')
                    | Inr (r # rs, s') \<Rightarrow> ((200, DeviceRow r), s'))))"

definition delete_device :: "string \<Rightarrow> db \<Rightarrow> response \<times> db" where
  "delete_device id0 s =
     (if \<not> is_uuid id0 then ((400, Message ''Invalid id''), s)
      else (case delete_device_rows (uuid_in id0) s of
              ([], s') \<Rightarrow> ((404, Message ''Device not found''), s')
            | (r # rs, s') \<Rightarrow> ((204, NoContent), s')))"

definition get_links :: "db \<Rightarrow> response \<times> db" where
  "get_links s = ((200, LinkRows (links_by_created_at s)), s)"

definition post_links :: "env \<Rightarrow> json \<Rightarrow> db \<Rightarrow> response \<times> db" where
  "post_links e body s =
     (case safeParse linkCreateSchema body of
        Inl err \<Rightarrow> ((400, Flatten err), s)
      | Inr data \<Rightarrow>
          (let fromId = map_of data ''fromId''; toId = map_of data ''toId'';
               status = map_of data ''status''; label = map_of data ''label'';
               fromHandle = map_of data ''fromHandle''; toHandle = map_of data ''toHandle''
           in case insert_link e (text_param fromId) (text_param toId) (text_param status)
                     (text_param label) (text_param fromHandle) (text_param toHandle) s of
                Inr (row, s') \<Rightarrow> ((201, LinkRow row), s')
              | Inl err \<Rightarrow>
                  if err = unique_violation then ((409, Message ''Link already exists''), s)
                  else if err = foreign_key_violation
                  then ((400, Message ''fromId/toId invalid (device not found)''), s)
                  else (internal_server_error, s)))"

definition link_allowed :: "string list" where
  "link_allowed = [''status'', ''label'', ''from_handle'', ''to_handle'']"

definition mapKey :: "string \<Rightarrow> string" where
  "mapKey k =
     (if k = ''fromHandle'' then ''from_handle''
      else if k = ''toHandle'' then ''to_handle''
      else k)"

definition patch_link :: "string \<Rightarrow> json \<Rightarrow> db \<Rightarrow> response \<times> db" where
  "patch_link id0 body s =
     (if \<not> is_uuid id0 then ((400, Message ''Invalid id''), s)
      else (case safeParse linkUpdateSchema body of
              Inl err \<Rightarrow> ((400, Flatten err), s)
            | Inr fields0 \<Rightarrow>
                (let entries = filter (\<lambda>(k, v). k \<in> set link_allowed)
                                 (map (\<lambda>(k, v). (mapKey k, v)) fields0) in
                 if length entries = 0 then ((400, Message ''No fields to update''), s)
                 else (case update_links (uuid_in id0) entries s of
                         Inl err \<Rightarrow> (internal_server_error, s)
                       | Inr ([], s') \<Rightarrow> ((404, Message ''Link not found''), s')
                       | Inr (r # rs, s') \<Rightarrow> ((200, LinkRow r), s')))))"

definition delete_link :: "string \<Rightarrow> db \<Rightarrow> response \<times> db" where
  "delete_link id0 s =
     (if \<not> is_uuid id0 then ((400, Message ''Invalid id''), s)
      else (case delete_link_rows (uuid_in id0) s of
              ([], s') \<Rightarrow> ((404, Message ''Link not found''), s')
            | (r # rs, s') \<Rightarrow> ((204, NoContent), s')))"

text \<open>
  The router: one constructor per route, with the path parameter \<open>req.params.id\<close>
  (written \<open>id0\<close>) and the body.
\<close>

datatype request =
    GET_health
  | GET_topology
  | GET_devices
  | GET_device string
  | POST_devices json
  | PATCH_device string json
  | PATCH_device_position string json
  | DELETE_device string
  | GET_links
  | POST_links json
  | PATCH_link string json
  | DELETE_link string

fun routes :: "env \<Rightarrow> request \<Rightarrow> db \<Rightarrow> response \<times> db" where
  "routes e GET_health s = get_health s"
| "routes e GET_topology s = get_topology s"
| "routes e GET_devices s = get_devices s"
| "routes e (GET_device id0) s = get_device id0 s"
| "routes e (POST_devices body) s = post_devices e body s"
| "routes e (PATCH_device id0 body) s = patch_device id0 body s"
| "routes e (PATCH_device_position id0 body) s = patch_device_position id0 body s"
| "routes e (DELETE_device id0) s = delete_device id0 s"
| "routes e GET_links s = get_links s"
| "routes e (POST_links body) s = post_links e body s"
| "routes e (PATCH_link id0 body) s = patch_link id0 body s"
| "routes e (DELETE_link id0) s = delete_link id0 s"

section \<open>The canvas controller (TopologyCanvas.tsx)\<close>

record FlowNode =
  fn_id :: string
  fn_type :: string
  fn_position :: "real \<times> real"
  fn_data :: DeviceNodeData

record FlowEdge =
  fe_id :: string
  fe_source :: string
  fe_target :: string
  fe_label :: "string option"
  fe_data_status :: string
  fe_animated :: bool
  fe_stroke :: string

definition edgeColor :: "string \<Rightarrow> string" where
  "edgeColor status =
     (if status = ''up'' then ''#22c55e''
      else if status = ''warn'' then ''#f59e0b''
      else ''#ef4444'')"

definition toFlowEdge :: "TopologyEdge \<Rightarrow> FlowEdge" where
  "toFlowEdge e =
     (let status = coalesce (e_data_status e) ''up'' in
      \<lparr>fe_id = e_id e, fe_source = e_source e, fe_target = e_target e, fe_label = e_label e,
       fe_data_status = status, fe_animated = (status \<noteq> ''up''), fe_stroke = edgeColor status\<rparr>)"

text \<open>
  The two selection variables of the component, and the handler of the canvas's
  selection-change event. Each of \<open>params.nodes?.[0]?.id ?? null\<close> and
  \<open>params.edges?.[0]?.id ?? null\<close> is \<open>None\<close> for a missing or empty array.
\<close>

record selection =
  selectedNodeId :: "string option"
  selectedEdgeId :: "string option"

definition onSelectionChange :: "FlowNode list option \<Rightarrow> FlowEdge list option \<Rightarrow> selection" where
  "onSelectionChange nodes edges =
     \<lparr>selectedNodeId = (case nodes of Some (n # ns) \<Rightarrow> Some (fn_id n) | _ \<Rightarrow> None),
      selectedEdgeId = (case edges of Some (e # es) \<Rightarrow> Some (fe_id e) | _ \<Rightarrow> None)\<rparr>"

text \<open>
  \<open>submitCreateLink\<close> up to its request: either a toast and no request (\<open>Inl\<close>), or
  the body of the \<open>POST /links\<close> that \<open>createLink\<close> sends (\<open>Inr\<close>). The second toast
  is written here without its tilde.
\<close>

definition submitCreateLink :: "string \<Rightarrow> string \<Rightarrow> string \<Rightarrow> string + json" where
  "submitCreateLink linkFrom linkTo linkLabel =
     (if linkFrom = [] \<or> linkTo = [] then Inl ''Selecione origem e destino.''
      else if linkFrom = linkTo then Inl ''Origem e destino nao podem ser iguais.''
      else Inr (JObj ([(''fromId'', JStr linkFrom), (''toId'', JStr linkTo)] @
                      (if trim linkLabel \<noteq> [] then [(''label'', JStr (trim linkLabel))] else []) @
                      [(''status'', JStr ''up'')])))"


section \<open>Properties of the store\<close>

text \<open>
  Referential integrity: both endpoints of every link are identifiers of device rows.
\<close>

definition referential_integrity :: "db \<Rightarrow> bool" where
  "referential_integrity s =
     list_all (\<lambda>l. l_from_id l \<in> set (map d_id (devices s)) \<and>
                    l_to_id l \<in> set (map d_id (devices s))) (links s)"

text \<open>
  The value of column \<open>c\<close> in the JSON of a device row, as \<open>res.json\<close> sends it; the
  eight values determine the row.
\<close>

definition device_column :: "string \<Rightarrow> device \<Rightarrow> json" where
  "device_column c d =
     (if c = ''id'' then JStr (d_id d)
      else if c = ''name'' then JStr (d_name d)
      else if c = ''type'' then JStr (d_type d)
      else if c = ''ip'' then (case d_ip d of None \<Rightarrow> JNull | Some a \<Rightarrow> JStr a)
      else if c = ''status'' then JStr (d_status d)
      else if c = ''x'' then JNum (d_x d)
      else if c = ''y'' then JNum (d_y d)
      else if c = ''created_at'' then JNum (real (d_created_at d))
      else JNull)"

text \<open>What the device validators let through for each column.\<close>

definition device_value :: "string \<Rightarrow> json \<Rightarrow> bool" where
  "device_value k v =
     ((k = ''name'' \<and> (\<exists>a. v = JStr a)) \<or>
      (k = ''type'' \<and> (\<exists>a. v = JStr a \<and> a \<in> set device_type)) \<or>
      (k = ''ip'' \<and> (\<exists>a. v = JStr a)) \<or>
      (k = ''status'' \<and> (\<exists>a. v = JStr a \<and> a \<in> set device_status)) \<or>
      (k = ''x'' \<and> (\<exists>r. v = JNum r)) \<or>
      (k = ''y'' \<and> (\<exists>r. v = JNum r)))"

text \<open>
  A link row after the assignments of a Link-update body: each of \<open>status\<close>, \<open>label\<close>,
  \<open>fromHandle\<close>, \<open>toHandle\<close> that the body holds as a string goes to its column
  (\<open>fromHandle\<close> to \<open>from_handle\<close>, \<open>toHandle\<close> to \<open>to_handle\<close>), and every other
  column keeps its value.
\<close>

definition link_patch :: "(string \<times> json) list \<Rightarrow> link \<Rightarrow> link" where
  "link_patch p l =
     l\<lparr>l_status := (case map_of p ''status'' of Some (JStr a) \<Rightarrow> a | _ \<Rightarrow> l_status l),
       l_label := (case map_of p ''label'' of Some (JStr a) \<Rightarrow> Some a | _ \<Rightarrow> l_label l),
       l_from_handle :=
         (case map_of p ''fromHandle'' of Some (JStr a) \<Rightarrow> Some a | _ \<Rightarrow> l_from_handle l),
       l_to_handle :=
         (case map_of p ''toHandle'' of Some (JStr a) \<Rightarrow> Some a | _ \<Rightarrow> l_to_handle l)\<rparr>"

text \<open>
  The optional text columns that were set in \<open>s\<close> are still set in \<open>s'\<close>, row by row
  (rows are matched by their primary key).
\<close>

definition text_fields_kept :: "db \<Rightarrow> db \<Rightarrow> bool" where
  "text_fields_kept s s' =
     ((\<forall>d \<in> set (devices s). \<forall>d' \<in> set (devices s').
         d_id d' = d_id d \<and> d_ip d \<noteq> None \<longrightarrow> d_ip d' \<noteq> None) \<and>
      (\<forall>l \<in> set (links s). \<forall>l' \<in> set (links s').
         l_id l' = l_id l \<longrightarrow>
           (l_label l \<noteq> None \<longrightarrow> l_label l' \<noteq> None) \<and>
           (l_from_handle l \<noteq> None \<longrightarrow> l_from_handle l' \<noteq> None) \<and>
           (l_to_handle l \<noteq> None \<longrightarrow> l_to_handle l' \<noteq> None)))"

section \<open>The search as the specification words it\<close>



section \<open>A sample store\<close>

text \<open>
  Two devices and two links from the first to the second, one without handles and one
  docked at the handles \<open>a\<close> and \<open>b\<close>; the concrete instances below are taken here.
\<close>

definition dev_a :: device where
  "dev_a = \<lparr>d_id = ''aaaaaaaa-0000-4000-8000-000000000001'', d_name = ''SW1'', d_type = ''switch'',
            d_ip = None, d_status = ''up'', d_x = 0, d_y = 0, d_created_at = 1\<rparr>"

definition dev_b :: device where
  "dev_b = \<lparr>d_id = ''bbbbbbbb-0000-4000-8000-000000000002'', d_name = ''R1'', d_type = ''router'',
            d_ip = Some ''10.0.0.1'', d_status = ''warn'', d_x = 120, d_y = 340, d_created_at = 2\<rparr>"

definition link_ab :: link where
  "link_ab = \<lparr>l_id = ''cccccccc-0000-4000-8000-000000000003'',
              l_from_id = ''aaaaaaaa-0000-4000-8000-000000000001'',
              l_to_id = ''bbbbbbbb-0000-4000-8000-000000000002'',
              l_status = ''up'', l_label = None, l_from_handle = None, l_to_handle = None,
              l_created_at = 3\<rparr>"

definition link_ab_docked :: link where
  "link_ab_docked = \<lparr>l_id = ''dddddddd-0000-4000-8000-000000000004'',
              l_from_id = ''aaaaaaaa-0000-4000-8000-000000000001'',
              l_to_id = ''bbbbbbbb-0000-4000-8000-000000000002'',
              l_status = ''up'', l_label = Some ''uplink'', l_from_handle = Some ''a'',
              l_to_handle = Some ''b'', l_created_at = 4\<rparr>"

definition sample_store :: db where
  "sample_store = \<lparr>devices = [dev_a, dev_b], links = [link_ab, link_ab_docked]\<rparr>"

definition sample_env :: env where
  "sample_env = \<lparr>gen_random_uuid = ''eeeeeeee-0000-4000-8000-000000000005'', now = 5\<rparr>"

text \<open>The two devices as nodes of the canvas, and the first link as an edge.\<close>

definition flow_a :: FlowNode where
  "flow_a = \<lparr>fn_id = ''aaaaaaaa-0000-4000-8000-000000000001'', fn_type = ''device'',
             fn_position = (0, 0),
             fn_data = \<lparr>data_name = ''SW1'', data_type = ''switch'', data_ip = None,
                        data_status = ''up''\<rparr>\<rparr>"

definition flow_b :: FlowNode where
  "flow_b = \<lparr>fn_id = ''bbbbbbbb-0000-4000-8000-000000000002'', fn_type = ''device'',
             fn_position = (120, 340),
             fn_data = \<lparr>data_name = ''R1'', data_type = ''router'', data_ip = Some ''10.0.0.1'',
                        data_status = ''warn''\<rparr>\<rparr>"

definition flow_ab :: FlowEdge where
  "flow_ab = \<lparr>fe_id = ''cccccccc-0000-4000-8000-000000000003'',
              fe_source = ''aaaaaaaa-0000-4000-8000-000000000001'',
              fe_target = ''bbbbbbbb-0000-4000-8000-000000000002'',
              fe_label = None, fe_data_status = ''up'', fe_animated = False,
              fe_stroke = ''#22c55e''\<rparr>"

section \<open>Facts about the validators\<close>

lemma safeParse_JObj:
  "safeParse shape (JObj p) = Inr data \<longleftrightarrow>
     (\<forall>(k, t) \<in> set shape. accepts t (map_of p k)) \<and>
     data = [(k, v). (k, t) \<leftarrow> shape, v \<leftarrow> (case map_of p k of None \<Rightarrow> [] | Some v \<Rightarrow> [v])]"
  by (auto simp: safeParse_def Let_def concat_eq_Nil_conv split: if_splits)

lemma safeParse_object:
  "safeParse shape body = Inr data \<Longrightarrow> \<exists>p. body = JObj p"
  by (cases body) (simp_all add: safeParse_def)

lemma map_of_parsed:
  "distinct (map fst shape) \<Longrightarrow>
   map_of [(k, v). (k, t) \<leftarrow> shape, v \<leftarrow> (case map_of p k of None \<Rightarrow> [] | Some v \<Rightarrow> [v])] c =
     (if c \<in> fst ` set shape then map_of p c else None)"
proof (induction shape)
  case Nil
  then show ?case by simp
next
  case (Cons a shape)
  obtain k t where a: "a = (k, t)" by (cases a)
  from Cons.prems have d: "distinct (map fst shape)" and k: "k \<notin> fst ` set shape"
    by (auto simp: a)
  show ?case
    using Cons.IH [OF d] k by (auto simp: a split: option.splits)
qed

lemma safeParse_lookup:
  assumes "safeParse shape (JObj p) = Inr data" and "distinct (map fst shape)"
  shows "map_of data c = (if c \<in> fst ` set shape then map_of p c else None)"
  using assms by (simp add: safeParse_JObj map_of_parsed)

lemma safeParse_accepts:
  assumes "safeParse shape (JObj p) = Inr data" and "(k, t) \<in> set shape"
  shows "accepts t (map_of p k)"
  using assms by (auto simp: safeParse_JObj)

lemma accepts_ZString: "accepts (ZString n) v \<Longrightarrow> \<exists>s. v = Some (JStr s) \<and> n \<le> length s"
  by (cases "(ZString n, v)" rule: accepts.cases) auto

lemma accepts_ZEnum: "accepts (ZEnum vs) v \<Longrightarrow> \<exists>s. v = Some (JStr s) \<and> s \<in> set vs"
  by (cases "(ZEnum vs, v)" rule: accepts.cases) auto

lemma accepts_ZNumber: "accepts ZNumber v \<Longrightarrow> \<exists>r. v = Some (JNum r)"
  by (cases "(ZNumber, v)" rule: accepts.cases) auto

lemma accepts_ZUuid: "accepts ZUuid v \<Longrightarrow> \<exists>s. v = Some (JStr s) \<and> is_uuid s"
  by (cases "(ZUuid, v)" rule: accepts.cases) auto

lemma accepts_ZOptional: "accepts (ZOptional t) v \<longleftrightarrow> v = None \<or> accepts t v"
  by (cases v) auto

section \<open>Facts about the update statement\<close>

lemma update_where_Inr:
  "update_where P f rs = Inr (hit, rs') \<Longrightarrow>
     rs' = map (\<lambda>r. if P r then projr (f r) else r) rs \<and>
     hit = map (\<lambda>r. projr (f r)) (filter P rs) \<and>
     (\<forall>r \<in> set rs. P r \<longrightarrow> \<not> isl (f r))"
proof (induction rs arbitrary: hit rs')
  case Nil
  then show ?case by simp
next
  case (Cons r rs)
  then show ?case
    by (cases "P r"; cases "f r"; cases "update_where P f rs") (auto split: if_splits)
qed

lemma update_where_total:
  "(\<forall>r \<in> set rs. P r \<longrightarrow> \<not> isl (f r)) \<Longrightarrow> \<exists>hit rs'. update_where P f rs = Inr (hit, rs')"
proof (induction rs)
  case Nil
  then show ?case by simp
next
  case (Cons r rs)
  then obtain hit rs' where "update_where P f rs = Inr (hit, rs')" by auto
  with Cons.prems show ?case by (cases "f r") auto
qed

lemma update_where_keys:
  assumes "update_where P f rs = Inr (hit, rs')"
    and "\<And>r r'. f r = Inr r' \<Longrightarrow> key r' = key r"
  shows "map key rs' = map key rs"
proof -
  have "\<And>r. r \<in> set rs \<Longrightarrow> P r \<Longrightarrow> key (projr (f r)) = key r"
    using update_where_Inr [OF assms(1)] assms(2) by (metis sum.collapse(2))
  then show ?thesis
    using update_where_Inr [OF assms(1)] by (auto)
qed

section \<open>What each handler does to the tables\<close>

lemma set_device_keeps:
  "set_device k v d = Inr d' \<Longrightarrow> d_id d' = d_id d \<and> d_created_at d' = d_created_at d"
  by (auto simp: set_device_def split: if_splits option.splits sum.splits)

lemma set_devices_keeps:
  "set_devices es d = Inr d' \<Longrightarrow> d_id d' = d_id d \<and> d_created_at d' = d_created_at d"
proof (induction es arbitrary: d)
  case Nil
  then show ?case by simp
next
  case (Cons a es)
  obtain k v where a: "a = (k, v)" by (cases a)
  from Cons.prems obtain d1 where s: "set_device k v d = Inr d1" and r: "set_devices es d1 = Inr d'"
    by (auto simp: a split: sum.splits)
  show ?case using Cons.IH [OF r] set_device_keeps [OF s] by simp
qed

lemma update_device_row_keeps:
  "update_device_row es d = Inr d' \<Longrightarrow> d_id d' = d_id d \<and> d_created_at d' = d_created_at d"
  by (auto simp: update_device_row_def split: sum.splits if_splits dest: set_devices_keeps)

lemma set_link_keeps:
  "set_link k v l = Inr l' \<Longrightarrow>
     l_id l' = l_id l \<and> l_from_id l' = l_from_id l \<and> l_to_id l' = l_to_id l \<and>
     l_created_at l' = l_created_at l"
  by (auto simp: set_link_def split: if_splits option.splits sum.splits)

lemma set_links_keeps:
  "set_links es l = Inr l' \<Longrightarrow>
     l_id l' = l_id l \<and> l_from_id l' = l_from_id l \<and> l_to_id l' = l_to_id l \<and>
     l_created_at l' = l_created_at l"
proof (induction es arbitrary: l)
  case Nil
  then show ?case by simp
next
  case (Cons a es)
  obtain k v where a: "a = (k, v)" by (cases a)
  from Cons.prems obtain l1 where s: "set_link k v l = Inr l1" and r: "set_links es l1 = Inr l'"
    by (auto simp: a split: sum.splits)
  show ?case using Cons.IH [OF r] set_link_keeps [OF s] by simp
qed

lemma update_link_row_keeps:
  "update_link_row others es l = Inr l' \<Longrightarrow>
     l_id l' = l_id l \<and> l_from_id l' = l_from_id l \<and> l_to_id l' = l_to_id l \<and>
     l_created_at l' = l_created_at l"
  by (auto simp: update_link_row_def split: sum.splits if_splits dest: set_links_keeps)

lemma post_devices_tables:
  "snd (post_devices e body s) = s \<or>
   (\<exists>row. snd (post_devices e body s) = s\<lparr>devices := devices s @ [row]\<rparr> \<and>
          d_id row \<notin> set (map d_id (devices s)))"
  by (auto simp: post_devices_def insert_device_def Let_def
      split: sum.splits option.splits if_splits prod.splits)

lemma update_devices_tables:
  assumes "update_devices uid es s = Inr (hit, s')"
  shows "links s' = links s \<and> map d_id (devices s') = map d_id (devices s) \<and>
         map d_created_at (devices s') = map d_created_at (devices s)"
proof -
  from assms obtain ds where u: "update_where (\<lambda>d. d_id d = uid) (update_device_row es) (devices s) = Inr (hit, ds)"
    and s': "s' = s\<lparr>devices := ds\<rparr>"
    by (auto simp: update_devices_def split: sum.splits)
  show ?thesis
    using update_where_keys [OF u, of d_id] update_where_keys [OF u, of d_created_at]
      update_device_row_keeps
    by (simp add: s')
qed

lemma patch_device_tables:
  "links (snd (patch_device id0 body s)) = links s \<and>
   map d_id (devices (snd (patch_device id0 body s))) = map d_id (devices s)"
  by (auto simp: patch_device_def Let_def split: sum.splits list.splits dest: update_devices_tables)

lemma patch_device_position_tables:
  "links (snd (patch_device_position id0 body s)) = links s \<and>
   map d_id (devices (snd (patch_device_position id0 body s))) = map d_id (devices s)"
proof -
  have "map d_id ds = map d_id (devices s)"
    if "update_where (\<lambda>d. d_id d = uid)
          (\<lambda>d. case (px, py) of (Some a, Some b) \<Rightarrow> Inr (d\<lparr>d_x := a, d_y := b\<rparr>)
                | _ \<Rightarrow> Inl not_null_violation) (devices s) = Inr (hit, ds)"
    for uid px py hit ds
    by (rule update_where_keys [OF that]) (auto split: option.splits)
  then show ?thesis
    by (auto simp: patch_device_position_def update_device_position_def Let_def
        split: sum.splits list.splits)
qed

lemma delete_device_tables:
  "snd (delete_device id0 s) = s \<or>
   (fst (delete_device id0 s) = (204, NoContent) \<and>
    snd (delete_device id0 s) =
      s\<lparr>devices := filter (\<lambda>d. d_id d \<noteq> uuid_in id0) (devices s),
        links := filter (\<lambda>l. l_from_id l \<noteq> uuid_in id0 \<and> l_to_id l \<noteq> uuid_in id0) (links s)\<rparr>)"
  by (auto simp: delete_device_def delete_device_rows_def Let_def split: list.splits if_splits)

lemma post_links_tables:
  "snd (post_links e body s) = s \<or>
   (\<exists>row. snd (post_links e body s) = s\<lparr>links := links s @ [row]\<rparr> \<and>
          fst (post_links e body s) = (201, LinkRow row) \<and>
          l_id row \<notin> set (map l_id (links s)) \<and>
          l_from_id row \<in> set (map d_id (devices s)) \<and>
          l_to_id row \<in> set (map d_id (devices s)))"
  by (auto simp: post_links_def insert_link_def Let_def
      split: sum.splits option.splits if_splits prod.splits)

lemma update_links_tables:
  assumes "update_links uid es s = Inr (hit, s')"
  shows "devices s' = devices s \<and> map l_id (links s') = map l_id (links s) \<and>
         map l_from_id (links s') = map l_from_id (links s) \<and>
         map l_to_id (links s') = map l_to_id (links s)"
proof -
  from assms obtain ls where u: "update_where (\<lambda>l. l_id l = uid)
        (update_link_row (filter (\<lambda>l. l_id l \<noteq> uid) (links s)) es) (links s) = Inr (hit, ls)"
    and s': "s' = s\<lparr>links := ls\<rparr>"
    by (auto simp: update_links_def split: sum.splits)
  show ?thesis
    using update_where_keys [OF u, of l_id] update_where_keys [OF u, of l_from_id]
      update_where_keys [OF u, of l_to_id] update_link_row_keeps
    by (simp add: s')
qed

lemma patch_link_tables:
  "devices (snd (patch_link id0 body s)) = devices s \<and>
   map l_id (links (snd (patch_link id0 body s))) = map l_id (links s) \<and>
   map l_from_id (links (snd (patch_link id0 body s))) = map l_from_id (links s) \<and>
   map l_to_id (links (snd (patch_link id0 body s))) = map l_to_id (links s)"
  by (auto simp: patch_link_def Let_def split: sum.splits list.splits dest: update_links_tables)

lemma delete_link_tables:
  "devices (snd (delete_link id0 s)) = devices s \<and>
   (\<exists>Q. links (snd (delete_link id0 s)) = filter Q (links s))"
proof (cases "is_uuid id0")
  case True
  then have "links (snd (delete_link id0 s)) = filter (\<lambda>l. l_id l \<noteq> uuid_in id0) (links s)"
    and "devices (snd (delete_link id0 s)) = devices s"
    by (auto simp: delete_link_def delete_link_rows_def split: list.splits)
  then show ?thesis by blast
next
  case False
  then have "links (snd (delete_link id0 s)) = filter (\<lambda>l. True) (links s)"
    and "devices (snd (delete_link id0 s)) = devices s"
    by (auto simp: delete_link_def)
  then show ?thesis by blast
qed

lemma get_tables:
  "snd (get_health s) = s" "snd (get_topology s) = s" "snd (get_devices s) = s"
  "snd (get_device id0 s) = s" "snd (get_links s) = s"
  by (auto simp: get_health_def get_topology_def get_devices_def get_device_def get_links_def
      Let_def split: list.splits)

section \<open>Device creation\<close>

text \<open>
  C1. A valid Device-create payload that has no \<open>status\<close>, no \<open>x\<close> and no \<open>y\<close> is
  answered 201 with the row that was appended to \<open>devices\<close>, and that row has status
  \<open>up\<close> and both coordinates 0. The store's generated identifier is taken to be new,
  as the primary key requires.
\<close>

theorem post_devices_defaults:
  assumes valid: "safeParse deviceCreateSchema (JObj p) = Inr data"
    and omitted: "map_of p ''status'' = None" "map_of p ''x'' = None" "map_of p ''y'' = None"
    and fresh: "gen_random_uuid e \<notin> set (map d_id (devices s))"
  shows "\<exists>row. post_devices e (JObj p) s = ((201, DeviceRow row), s\<lparr>devices := devices s @ [row]\<rparr>) \<and>
           d_status row = ''up'' \<and> d_x row = 0 \<and> d_y row = 0"
proof -
  have dist: "distinct (map fst deviceCreateSchema)"
    by (simp add: deviceCreateSchema_def)
  have look: "\<And>c. c \<in> fst ` set deviceCreateSchema \<Longrightarrow> map_of data c = map_of p c"
    using safeParse_lookup [OF valid dist] by simp
  obtain n where n: "map_of p ''name'' = Some (JStr n)"
    using safeParse_accepts [OF valid, of "''name''" "ZString 2"] accepts_ZString
    by (fastforce simp: deviceCreateSchema_def)
  obtain t where t: "map_of p ''type'' = Some (JStr t)" "t \<in> set device_type"
    using safeParse_accepts [OF valid, of "''type''" "ZEnum [''hub'', ''switch'', ''router'', ''ap'', ''server'']"]
      accepts_ZEnum [of "[''hub'', ''switch'', ''router'', ''ap'', ''server'']" "map_of p ''type''"]
    by (auto simp: deviceCreateSchema_def device_type_def)
  have l: "map_of data ''name'' = Some (JStr n)" "map_of data ''type'' = Some (JStr t)"
    "map_of data ''status'' = None" "map_of data ''x'' = None" "map_of data ''y'' = None"
    "map_of data ''ip'' = map_of p ''ip''"
    using look n t omitted by (simp_all add: deviceCreateSchema_def)
  show ?thesis
    using t(2) fresh
    by (auto simp: post_devices_def valid l insert_device_def cast_enum_def coalesce_def
        devices_check_def device_type_def Let_def)
qed

theorem post_devices_defaults_witness:
  "safeParse deviceCreateSchema (JObj [(''name'', JStr ''SW1''), (''type'', JStr ''switch'')]) =
     Inr [(''name'', JStr ''SW1''), (''type'', JStr ''switch'')] \<and>
   (\<exists>row. post_devices \<lparr>gen_random_uuid = ''11111111-1111-4111-8111-111111111111'', now = 1\<rparr>
            (JObj [(''name'', JStr ''SW1''), (''type'', JStr ''switch'')])
            \<lparr>devices = [], links = []\<rparr> =
          ((201, DeviceRow row), \<lparr>devices = [row], links = []\<rparr>) \<and>
          d_status row = ''up'' \<and> d_x row = 0 \<and> d_y row = 0)"
proof -
  have v: "safeParse deviceCreateSchema (JObj [(''name'', JStr ''SW1''), (''type'', JStr ''switch'')]) =
      Inr [(''name'', JStr ''SW1''), (''type'', JStr ''switch'')]"
    by (simp add: safeParse_def deviceCreateSchema_def)
  show ?thesis
    using v post_devices_defaults [OF v, of
        "\<lparr>gen_random_uuid = ''11111111-1111-4111-8111-111111111111'', now = 1\<rparr>"
        "\<lparr>devices = [], links = []\<rparr>"]
    by simp
qed

section \<open>Device deletion and referential integrity\<close>

lemma referential_integrity_routes:
  assumes "referential_integrity s"
  shows "referential_integrity (snd (routes e r s))"
proof (cases r)
  case (POST_devices body)
  then show ?thesis
    using assms post_devices_tables [of e body s]
    by (auto simp: referential_integrity_def list_all_iff)
next
  case (PATCH_device id0 body)
  then show ?thesis
    using assms patch_device_tables [of id0 body s]
    by (simp add: referential_integrity_def list_all_iff)
next
  case (PATCH_device_position id0 body)
  then show ?thesis
    using assms patch_device_position_tables [of id0 body s]
    by (simp add: referential_integrity_def list_all_iff)
next
  case (DELETE_device id0)
  have "referential_integrity
      (s\<lparr>devices := filter (\<lambda>d. d_id d \<noteq> uuid_in id0) (devices s),
        links := filter (\<lambda>l. l_from_id l \<noteq> uuid_in id0 \<and> l_to_id l \<noteq> uuid_in id0) (links s)\<rparr>)"
    using assms unfolding referential_integrity_def list_all_iff by force
  then show ?thesis
    using assms DELETE_device delete_device_tables [of id0 s] by auto
next
  case (POST_links body)
  then show ?thesis
    using assms post_links_tables [of e body s]
    by (auto simp: referential_integrity_def list_all_iff)
next
  case (PATCH_link id0 body)
  have "set (links (snd (patch_link id0 body s))) \<subseteq> {l. l_from_id l \<in> l_from_id ` set (links s) \<and> l_to_id l \<in> l_to_id ` set (links s)}"
    using patch_link_tables [of id0 body s]
    by (metis (mono_tags, lifting) image_eqI mem_Collect_eq set_map subsetI)
  then show ?thesis
    using assms PATCH_link patch_link_tables [of id0 body s]
    by (auto simp: referential_integrity_def list_all_iff)
next
  case (DELETE_link id0)
  then show ?thesis
    using assms delete_link_tables [of id0 s]
    by (auto simp: referential_integrity_def list_all_iff)
qed (use assms in \<open>simp_all add: get_tables\<close>)

text \<open>
  C3. When \<open>DELETE /devices/:id\<close> answers 204, the device is gone and no remaining
  link has it as \<open>from_id\<close> or \<open>to_id\<close>; it answers 204 whenever the identifier is
  well formed and names a device row. Referential integrity is an invariant of every
  route.
\<close>

theorem delete_device_cascade:
  "(fst (fst (delete_device id0 s)) = 204 \<longrightarrow>
      uuid_in id0 \<notin> set (map d_id (devices (snd (delete_device id0 s)))) \<and>
      list_all (\<lambda>l. l_from_id l \<noteq> uuid_in id0 \<and> l_to_id l \<noteq> uuid_in id0)
        (links (snd (delete_device id0 s)))) \<and>
   (is_uuid id0 \<and> uuid_in id0 \<in> set (map d_id (devices s)) \<longrightarrow>
      fst (delete_device id0 s) = (204, NoContent)) \<and>
   (referential_integrity s \<longrightarrow> referential_integrity (snd (routes e r s)))"
proof (intro conjI impI)
  assume ok: "fst (fst (delete_device id0 s)) = 204"
  then have s': "snd (delete_device id0 s) =
      s\<lparr>devices := filter (\<lambda>d. d_id d \<noteq> uuid_in id0) (devices s),
        links := filter (\<lambda>l. l_from_id l \<noteq> uuid_in id0 \<and> l_to_id l \<noteq> uuid_in id0) (links s)\<rparr>"
    by (auto simp: delete_device_def delete_device_rows_def Let_def split: list.splits if_splits)
  show "uuid_in id0 \<notin> set (map d_id (devices (snd (delete_device id0 s))))"
    by (auto simp: s')
  show "list_all (\<lambda>l. l_from_id l \<noteq> uuid_in id0 \<and> l_to_id l \<noteq> uuid_in id0)
        (links (snd (delete_device id0 s)))"
    by (simp add: s' list_all_iff)
next
  assume "is_uuid id0 \<and> uuid_in id0 \<in> set (map d_id (devices s))"
  then have "is_uuid id0" and "filter (\<lambda>d. d_id d = uuid_in id0) (devices s) \<noteq> []"
    by (auto simp: filter_empty_conv)
  then show "fst (delete_device id0 s) = (204, NoContent)"
    by (auto simp: delete_device_def delete_device_rows_def Let_def split: list.splits)
next
  assume "referential_integrity s"
  then show "referential_integrity (snd (routes e r s))"
    by (rule referential_integrity_routes)
qed

lemmas sample_defs =
  sample_store_def sample_env_def dev_a_def dev_b_def link_ab_def link_ab_docked_def

lemmas uuid_defs = is_uuid_def is_hex_def uuid_in_def toLowerCase_def toLowerCase_char_def

theorem delete_device_cascade_witness:
  "fst (fst (delete_device ''AAAAAAAA-0000-4000-8000-000000000001'' sample_store)) = 204 \<and>
   is_uuid ''AAAAAAAA-0000-4000-8000-000000000001'' \<and>
   uuid_in ''AAAAAAAA-0000-4000-8000-000000000001'' \<in> set (map d_id (devices sample_store)) \<and>
   referential_integrity sample_store \<and>
   uuid_in ''AAAAAAAA-0000-4000-8000-000000000001'' \<notin>
     set (map d_id (devices (snd (delete_device ''AAAAAAAA-0000-4000-8000-000000000001'' sample_store)))) \<and>
   list_all (\<lambda>l. l_from_id l \<noteq> uuid_in ''AAAAAAAA-0000-4000-8000-000000000001'' \<and>
                  l_to_id l \<noteq> uuid_in ''AAAAAAAA-0000-4000-8000-000000000001'')
     (links (snd (delete_device ''AAAAAAAA-0000-4000-8000-000000000001'' sample_store))) \<and>
   referential_integrity
     (snd (routes sample_env (DELETE_device ''AAAAAAAA-0000-4000-8000-000000000001'') sample_store))"
proof -
  have u: "is_uuid ''AAAAAAAA-0000-4000-8000-000000000001''"
    by (simp add: uuid_defs)
  have m: "uuid_in ''AAAAAAAA-0000-4000-8000-000000000001'' \<in> set (map d_id (devices sample_store))"
    by (simp add: uuid_defs sample_defs)
  have r: "referential_integrity sample_store"
    by (simp add: referential_integrity_def sample_defs)
  have d: "fst (fst (delete_device ''AAAAAAAA-0000-4000-8000-000000000001'' sample_store)) = 204"
    using delete_device_cascade [of "''AAAAAAAA-0000-4000-8000-000000000001''" sample_store] u m
    by simp
  show ?thesis
    using delete_device_cascade [of "''AAAAAAAA-0000-4000-8000-000000000001''" sample_store
        sample_env "DELETE_device ''AAAAAAAA-0000-4000-8000-000000000001''"] u m r d
    by blast
qed

section \<open>Link creation\<close>

lemma post_links_valid:
  assumes valid: "safeParse linkCreateSchema (JObj p) = Inr data"
    and ends: "map_of p ''fromId'' = Some (JStr f)" "map_of p ''toId'' = Some (JStr t)"
    and row: "row = \<lparr>l_id = gen_random_uuid e, l_from_id = uuid_in f, l_to_id = uuid_in t,
                     l_status = coalesce (text_param (map_of p ''status'')) ''up'',
                     l_label = text_param (map_of p ''label''),
                     l_from_handle = text_param (map_of p ''fromHandle''),
                     l_to_handle = text_param (map_of p ''toHandle''),
                     l_created_at = now e\<rparr>"
  shows "post_links e (JObj p) s =
     (if l_id row \<in> set (map l_id (links s)) \<or> list_ex (links_unique row) (links s)
      then ((409, Message ''Link already exists''), s)
      else if l_from_id row \<notin> set (map d_id (devices s)) \<or> l_to_id row \<notin> set (map d_id (devices s))
      then ((400, Message ''fromId/toId invalid (device not found)''), s)
      else ((201, LinkRow row), s\<lparr>links := links s @ [row]\<rparr>))"
proof -
  have dist: "distinct (map fst linkCreateSchema)"
    by (simp add: linkCreateSchema_def)
  have look: "\<And>c. c \<in> fst ` set linkCreateSchema \<Longrightarrow> map_of data c = map_of p c"
    using safeParse_lookup [OF valid dist] by simp
  have l: "map_of data ''fromId'' = Some (JStr f)" "map_of data ''toId'' = Some (JStr t)"
    "map_of data ''status'' = map_of p ''status''" "map_of data ''label'' = map_of p ''label''"
    "map_of data ''fromHandle'' = map_of p ''fromHandle''"
    "map_of data ''toHandle'' = map_of p ''toHandle''"
    using look ends by (simp_all add: linkCreateSchema_def)
  have "accepts (ZOptional (ZEnum [''up'', ''warn'', ''down''])) (map_of p ''status'')"
    using safeParse_accepts [OF valid, of "''status''"] by (simp add: linkCreateSchema_def)
  then have st: "map_of p ''status'' = None \<or> (\<exists>v. map_of p ''status'' = Some (JStr v) \<and> v \<in> set link_status)"
    using accepts_ZEnum [of "[''up'', ''warn'', ''down'']" "map_of p ''status''"]
    by (auto simp: accepts_ZOptional link_status_def)
  then have c: "cast_enum link_status (text_param (map_of p ''status'')) = Inr (text_param (map_of p ''status''))"
    and k: "links_check row"
    by (auto simp: cast_enum_def coalesce_def link_status_def links_check_def row)
  show ?thesis
    using k [unfolded row]
    by (simp add: post_links_def valid l insert_link_def c row Let_def)
qed

lemma post_links_conflict_with_handles:
  assumes valid: "safeParse linkCreateSchema (JObj p) = Inr data"
    and ends: "map_of p ''fromId'' = Some (JStr f)" "map_of p ''toId'' = Some (JStr t)"
    and handles: "map_of p ''fromHandle'' = Some (JStr a)" "map_of p ''toHandle'' = Some (JStr b)"
    and dup: "l \<in> set (links s)" "l_from_id l = uuid_in f" "l_to_id l = uuid_in t"
      "l_from_handle l = Some a" "l_to_handle l = Some b"
  shows "post_links e (JObj p) s = ((409, Message ''Link already exists''), s)"
proof -
  have "list_ex (links_unique \<lparr>l_id = gen_random_uuid e, l_from_id = uuid_in f, l_to_id = uuid_in t,
                     l_status = coalesce (text_param (map_of p ''status'')) ''up'',
                     l_label = text_param (map_of p ''label''),
                     l_from_handle = text_param (map_of p ''fromHandle''),
                     l_to_handle = text_param (map_of p ''toHandle''),
                     l_created_at = now e\<rparr>) (links s)"
    using dup handles by (auto simp: list_ex_iff links_unique_def intro!: bexI [of _ l])
  then show ?thesis
    by (simp add: post_links_valid [OF valid ends refl])
qed

text \<open>
  C2 at a concrete input. The sample store holds a link from the first device to the
  second without handles. A Link-create payload with the same two endpoints and no
  handles is answered 201 and a second row with the same
  \<open>(from_id, to_id, from_handle, to_handle)\<close> is appended: the NULL handles keep the
  unique index from matching, so the 409 of a duplicate is never reached for links
  without handles.
\<close>

theorem post_links_duplicate_without_handles:
  "post_links sample_env
     (JObj [(''fromId'', JStr ''aaaaaaaa-0000-4000-8000-000000000001''),
            (''toId'', JStr ''bbbbbbbb-0000-4000-8000-000000000002'')])
     sample_store =
   ((201, LinkRow (link_ab\<lparr>l_id := ''eeeeeeee-0000-4000-8000-000000000005'', l_created_at := 5\<rparr>)),
    sample_store\<lparr>links := [link_ab, link_ab_docked,
       link_ab\<lparr>l_id := ''eeeeeeee-0000-4000-8000-000000000005'', l_created_at := 5\<rparr>]\<rparr>)"
  by (simp add: post_links_def safeParse_def linkCreateSchema_def insert_link_def cast_enum_def
      coalesce_def links_check_def links_unique_def link_status_def Let_def sample_defs uuid_defs)

text \<open>
  C7. A valid Link-create payload whose \<open>fromId\<close> and \<open>toId\<close> both name the existing
  device \<open>d\<close> is answered 201 and its row is appended to \<open>links\<close> with \<open>from_id = to_id\<close>,
  under the two conditions of any link creation: the generated identifier is new, and
  the payload does not repeat a handle pair already stored for these endpoints (a
  payload without handles never does). The create-link flow of the canvas, given the
  same identifier as origin and destination, shows a toast and sends no request; given
  two different non-empty identifiers it sends the request.
\<close>

theorem self_link_accepted:
  assumes valid: "safeParse linkCreateSchema (JObj p) = Inr data"
    and self: "map_of p ''fromId'' = Some (JStr d)" "map_of p ''toId'' = Some (JStr d)"
    and existing: "uuid_in d \<in> set (map d_id (devices s))"
    and fresh: "gen_random_uuid e \<notin> set (map l_id (links s))"
    and no_dup: "\<not> list_ex (\<lambda>l. l_from_id l = uuid_in d \<and> l_to_id l = uuid_in d \<and>
                       l_from_handle l \<noteq> None \<and>
                       l_from_handle l = text_param (map_of p ''fromHandle'') \<and>
                       l_to_handle l \<noteq> None \<and>
                       l_to_handle l = text_param (map_of p ''toHandle'')) (links s)"
  shows "(\<exists>row. post_links e (JObj p) s = ((201, LinkRow row), s\<lparr>links := links s @ [row]\<rparr>) \<and>
            l_from_id row = uuid_in d \<and> l_to_id row = uuid_in d) \<and>
         isl (submitCreateLink d d linkLabel) \<and>
         (linkFrom \<noteq> [] \<and> linkTo \<noteq> [] \<and> linkFrom \<noteq> linkTo \<longrightarrow>
            \<not> isl (submitCreateLink linkFrom linkTo linkLabel))"
proof -
  let ?row = "\<lparr>l_id = gen_random_uuid e, l_from_id = uuid_in d, l_to_id = uuid_in d,
                     l_status = coalesce (text_param (map_of p ''status'')) ''up'',
                     l_label = text_param (map_of p ''label''),
                     l_from_handle = text_param (map_of p ''fromHandle''),
                     l_to_handle = text_param (map_of p ''toHandle''),
                     l_created_at = now e\<rparr>"
  have "\<not> list_ex (links_unique ?row) (links s)"
    using no_dup by (auto simp: list_ex_iff links_unique_def)
  then have "post_links e (JObj p) s = ((201, LinkRow ?row), s\<lparr>links := links s @ [?row]\<rparr>)"
    using existing fresh by (simp add: post_links_valid [OF valid self refl])
  then have "\<exists>row. post_links e (JObj p) s = ((201, LinkRow row), s\<lparr>links := links s @ [row]\<rparr>) \<and>
            l_from_id row = uuid_in d \<and> l_to_id row = uuid_in d"
    by (intro exI [of _ ?row]) simp
  then show ?thesis
    by (simp add: submitCreateLink_def)
qed

theorem self_link_accepted_witness:
  "safeParse linkCreateSchema
     (JObj [(''fromId'', JStr ''aaaaaaaa-0000-4000-8000-000000000001''),
            (''toId'', JStr ''aaaaaaaa-0000-4000-8000-000000000001'')]) =
     Inr [(''fromId'', JStr ''aaaaaaaa-0000-4000-8000-000000000001''),
          (''toId'', JStr ''aaaaaaaa-0000-4000-8000-000000000001'')] \<and>
   uuid_in ''aaaaaaaa-0000-4000-8000-000000000001'' \<in> set (map d_id (devices sample_store)) \<and>
   gen_random_uuid sample_env \<notin> set (map l_id (links sample_store)) \<and>
   (\<exists>row. post_links sample_env
            (JObj [(''fromId'', JStr ''aaaaaaaa-0000-4000-8000-000000000001''),
                   (''toId'', JStr ''aaaaaaaa-0000-4000-8000-000000000001'')])
            sample_store =
          ((201, LinkRow row), sample_store\<lparr>links := links sample_store @ [row]\<rparr>) \<and>
          l_from_id row = uuid_in ''aaaaaaaa-0000-4000-8000-000000000001'' \<and>
          l_to_id row = uuid_in ''aaaaaaaa-0000-4000-8000-000000000001'') \<and>
   isl (submitCreateLink ''aaaaaaaa-0000-4000-8000-000000000001''
          ''aaaaaaaa-0000-4000-8000-000000000001'' ''uplink'') \<and>
   \<not> isl (submitCreateLink ''aaaaaaaa-0000-4000-8000-000000000001''
            ''bbbbbbbb-0000-4000-8000-000000000002'' ''uplink'')"
proof -
  let ?p = "[(''fromId'', JStr ''aaaaaaaa-0000-4000-8000-000000000001''),
             (''toId'', JStr ''aaaaaaaa-0000-4000-8000-000000000001'')]"
  have v: "safeParse linkCreateSchema (JObj ?p) = Inr ?p"
    by (simp add: safeParse_def linkCreateSchema_def uuid_defs)
  have f: "map_of ?p ''fromId'' = Some (JStr ''aaaaaaaa-0000-4000-8000-000000000001'')"
    and t: "map_of ?p ''toId'' = Some (JStr ''aaaaaaaa-0000-4000-8000-000000000001'')"
    by simp_all
  have x: "uuid_in ''aaaaaaaa-0000-4000-8000-000000000001'' \<in> set (map d_id (devices sample_store))"
    by (simp add: uuid_defs sample_defs)
  have g: "gen_random_uuid sample_env \<notin> set (map l_id (links sample_store))"
    by (simp add: sample_defs)
  have n: "\<not> list_ex (\<lambda>l. l_from_id l = uuid_in ''aaaaaaaa-0000-4000-8000-000000000001'' \<and>
                       l_to_id l = uuid_in ''aaaaaaaa-0000-4000-8000-000000000001'' \<and>
                       l_from_handle l \<noteq> None \<and>
                       l_from_handle l = text_param (map_of ?p ''fromHandle'') \<and>
                       l_to_handle l \<noteq> None \<and>
                       l_to_handle l = text_param (map_of ?p ''toHandle'')) (links sample_store)"
    by (simp add: sample_defs)
  have ne: "''aaaaaaaa-0000-4000-8000-000000000001'' \<noteq> [] \<and>
      ''bbbbbbbb-0000-4000-8000-000000000002'' \<noteq> [] \<and>
      ''aaaaaaaa-0000-4000-8000-000000000001'' \<noteq> ''bbbbbbbb-0000-4000-8000-000000000002''"
    by simp
  show ?thesis
    using self_link_accepted [OF v f t x g n, of "''uplink''"
        "''aaaaaaaa-0000-4000-8000-000000000001''" "''bbbbbbbb-0000-4000-8000-000000000002''"]
      v x g ne
    by blast
qed

section \<open>Partial update of a device\<close>

lemma parsed_set:
  "(k, v) \<in> set [(k, v). (k, t) \<leftarrow> shape, v \<leftarrow> (case map_of p k of None \<Rightarrow> [] | Some v \<Rightarrow> [v])] \<longleftrightarrow>
     k \<in> fst ` set shape \<and> map_of p k = Some v"
  by (force split: option.splits)

lemma parsed_distinct:
  "distinct (map fst shape) \<Longrightarrow>
   distinct (map fst [(k, v). (k, t) \<leftarrow> shape, v \<leftarrow> (case map_of p k of None \<Rightarrow> [] | Some v \<Rightarrow> [v])])"
proof (induction shape)
  case Nil
  then show ?case by simp
next
  case (Cons a shape)
  obtain k t where a: "a = (k, t)" by (cases a)
  have "k \<notin> fst ` set [(k, v). (k, t) \<leftarrow> shape, v \<leftarrow> (case map_of p k of None \<Rightarrow> [] | Some v \<Rightarrow> [v])]"
    using Cons.prems by (force simp: a split: option.splits)
  then show ?case
    using Cons by (auto simp: a split: option.splits)
qed

lemma set_device_column:
  assumes "device_value k v"
  shows "\<exists>d'. set_device k v d = Inr d' \<and>
              (\<forall>c. device_column c d' = (if c = k then v else device_column c d))"
proof -
  from assms consider
      a where "k = ''name''" "v = JStr a"
    | a where "k = ''type''" "v = JStr a" "a \<in> set device_type"
    | a where "k = ''ip''" "v = JStr a"
    | a where "k = ''status''" "v = JStr a" "a \<in> set device_status"
    | r where "k = ''x''" "v = JNum r"
    | r where "k = ''y''" "v = JNum r"
    unfolding device_value_def by blast
  then show ?thesis
  proof cases
    case 1
    then show ?thesis by (simp add: set_device_def device_column_def)
  next
    case 2
    then show ?thesis by (simp add: set_device_def cast_enum_def device_column_def)
  next
    case 3
    then show ?thesis by (simp add: set_device_def device_column_def)
  next
    case 4
    then show ?thesis by (simp add: set_device_def cast_enum_def device_column_def)
  next
    case 5
    then show ?thesis by (simp add: set_device_def device_column_def)
  next
    case 6
    then show ?thesis by (simp add: set_device_def device_column_def)
  qed
qed

lemma set_devices_column:
  assumes "distinct (map fst es)" and "\<forall>(k, v) \<in> set es. device_value k v"
  shows "\<exists>d'. set_devices es d = Inr d' \<and>
              (\<forall>c. device_column c d' = (case map_of es c of None \<Rightarrow> device_column c d | Some v \<Rightarrow> v))"
  using assms
proof (induction es arbitrary: d)
  case Nil
  then show ?case by simp
next
  case (Cons a es)
  obtain k v where a: "a = (k, v)" by (cases a)
  from Cons.prems have dv: "device_value k v" and k: "k \<notin> fst ` set es"
    and d: "distinct (map fst es)" and r: "\<forall>(k, v) \<in> set es. device_value k v"
    by (auto simp: a)
  from set_device_column [OF dv, of d] obtain d1 where
    s: "set_device k v d = Inr d1"
    and c1: "\<And>c. device_column c d1 = (if c = k then v else device_column c d)"
    by blast
  from Cons.IH [OF d r, of d1] obtain d' where
    s': "set_devices es d1 = Inr d'"
    and c': "\<And>c. device_column c d' = (case map_of es c of None \<Rightarrow> device_column c d1 | Some v \<Rightarrow> v)"
    by blast
  have "map_of es k = None"
    using k by (simp add: map_of_eq_None_iff)
  then have "\<forall>c. device_column c d' =
      (case map_of (a # es) c of None \<Rightarrow> device_column c d | Some v \<Rightarrow> v)"
    by (auto simp: a c' c1 split: option.splits)
  then show ?case
    using s s' by (simp add: a)
qed

lemma device_column_check:
  assumes "devices_check d"
    and "\<forall>c. device_column c d' = (case map_of es c of None \<Rightarrow> device_column c d | Some v \<Rightarrow> v)"
    and "\<forall>(k, v) \<in> set es. device_value k v"
  shows "devices_check d'"
proof -
  have t: "d_type d' \<in> set device_type"
  proof (cases "map_of es ''type''")
    case None
    then have "device_column ''type'' d' = device_column ''type'' d"
      using assms(2) by simp
    then show ?thesis
      using assms(1) by (simp add: device_column_def devices_check_def device_type_def)
  next
    case (Some v)
    then have "device_value ''type'' v"
      using assms(3) map_of_SomeD by fastforce
    moreover have "device_column ''type'' d' = v"
      using assms(2) Some by simp
    ultimately show ?thesis
      by (auto simp: device_value_def device_column_def)
  qed
  have st: "d_status d' \<in> set device_status"
  proof (cases "map_of es ''status''")
    case None
    then have "device_column ''status'' d' = device_column ''status'' d"
      using assms(2) by simp
    then show ?thesis
      using assms(1) by (simp add: device_column_def devices_check_def device_status_def)
  next
    case (Some v)
    then have "device_value ''status'' v"
      using assms(3) map_of_SomeD by fastforce
    moreover have "device_column ''status'' d' = v"
      using assms(2) Some by simp
    ultimately show ?thesis
      by (auto simp: device_value_def device_column_def)
  qed
  show ?thesis
    using t st by (simp add: devices_check_def device_type_def device_status_def)
qed

lemma device_value_intros:
  "accepts (ZString n) (Some v) \<Longrightarrow> device_value ''name'' v"
  "accepts (ZEnum device_type) (Some v) \<Longrightarrow> device_value ''type'' v"
  "accepts (ZString n) (Some v) \<Longrightarrow> device_value ''ip'' v"
  "accepts (ZEnum device_status) (Some v) \<Longrightarrow> device_value ''status'' v"
  "accepts ZNumber (Some v) \<Longrightarrow> device_value ''x'' v"
  "accepts ZNumber (Some v) \<Longrightarrow> device_value ''y'' v"
  by (cases v; simp add: device_value_def)+

lemma accepts_device_value:
  assumes "(k, t) \<in> set deviceUpdateSchema" and "accepts t (Some v)"
  shows "device_value k v"
proof -
  have "(k, t) \<in> set [(''name'', ZOptional (ZString 2)), (''type'', ZOptional (ZEnum device_type)),
      (''ip'', ZOptional (ZOptional (ZString 0))), (''status'', ZOptional (ZOptional (ZEnum device_status))),
      (''x'', ZOptional (ZOptional ZNumber)), (''y'', ZOptional (ZOptional ZNumber))]"
    using assms(1)
    by (simp add: deviceUpdateSchema_def deviceCreateSchema_def partial_def device_type_def
        device_status_def)
  then consider "k = ''name''" "t = ZOptional (ZString 2)"
    | "k = ''type''" "t = ZOptional (ZEnum device_type)"
    | "k = ''ip''" "t = ZOptional (ZOptional (ZString 0))"
    | "k = ''status''" "t = ZOptional (ZOptional (ZEnum device_status))"
    | "k = ''x''" "t = ZOptional (ZOptional ZNumber)"
    | "k = ''y''" "t = ZOptional (ZOptional ZNumber)"
    by auto
  then show ?thesis
    using assms(2) by cases (simp_all add: device_value_intros)
qed

lemma deviceUpdateSchema_values:
  assumes valid: "safeParse deviceUpdateSchema (JObj p) = Inr data"
  shows "distinct (map fst data)"
    and "\<forall>(k, v) \<in> set data. device_value k v \<and> k \<in> set device_allowed"
    and "map_of data c = (if c \<in> set device_allowed then map_of p c else None)"
proof -
  have dist: "distinct (map fst deviceUpdateSchema)"
    by (simp add: deviceUpdateSchema_def deviceCreateSchema_def partial_def)
  have data: "data = [(k, v). (k, t) \<leftarrow> deviceUpdateSchema, v \<leftarrow> (case map_of p k of None \<Rightarrow> [] | Some v \<Rightarrow> [v])]"
    using valid by (simp add: safeParse_JObj)
  have keys: "fst ` set deviceUpdateSchema = set device_allowed"
    by (simp add: deviceUpdateSchema_def deviceCreateSchema_def partial_def device_allowed_def)
  show "distinct (map fst data)"
    unfolding data by (rule parsed_distinct [OF dist])
  show "map_of data c = (if c \<in> set device_allowed then map_of p c else None)"
    using safeParse_lookup [OF valid dist] keys by simp
  show "\<forall>(k, v) \<in> set data. device_value k v \<and> k \<in> set device_allowed"
  proof clarify
    fix k v
    assume "(k, v) \<in> set data"
    then have "k \<in> fst ` set deviceUpdateSchema \<and> map_of p k = Some v"
      unfolding data by (rule parsed_set [THEN iffD1])
    then have k: "k \<in> fst ` set deviceUpdateSchema" and v: "map_of p k = Some v"
      by simp_all
    from k obtain t where t: "(k, t) \<in> set deviceUpdateSchema" by auto
    then have "accepts t (Some v)"
      using safeParse_accepts [OF valid t] v by simp
    then have "device_value k v"
      by (rule accepts_device_value [OF t])
    then show "device_value k v \<and> k \<in> set device_allowed"
      using k keys by simp
  qed
qed

lemma patch_device_valid:
  assumes wf: "is_uuid id0"
    and valid: "safeParse deviceUpdateSchema (JObj p) = Inr data"
    and some: "data \<noteq> []"
    and checks: "list_all devices_check (devices s)"
  shows "\<exists>upd.
      patch_device id0 (JObj p) s =
        ((case filter (\<lambda>d. d_id d = uuid_in id0) (devices s) of
            [] \<Rightarrow> (404, Message ''Device not found'')
          | d # ds \<Rightarrow> (200, DeviceRow (upd d))),
         s\<lparr>devices := map (\<lambda>d. if d_id d = uuid_in id0 then upd d else d) (devices s)\<rparr>) \<and>
      (\<forall>d c. device_column c (upd d) =
         (if c \<in> set device_allowed
          then (case map_of p c of None \<Rightarrow> device_column c d | Some v \<Rightarrow> v)
          else device_column c d))"
proof -
  note vals = deviceUpdateSchema_values [OF valid]
  define upd where "upd d = projr (set_devices data d)" for d
  have dv: "\<forall>(k, v) \<in> set data. device_value k v"
    using vals(2) by auto
  have set: "set_devices data d = Inr (upd d)" and
    col: "device_column c (upd d) = (case map_of data c of None \<Rightarrow> device_column c d | Some v \<Rightarrow> v)"
    for d c
    using set_devices_column [OF vals(1) dv, of d] by (auto simp: upd_def)
  have frame: "device_column c (upd d) =
         (if c \<in> set device_allowed
          then (case map_of p c of None \<Rightarrow> device_column c d | Some v \<Rightarrow> v)
          else device_column c d)" for d c
    by (simp add: col vals(3))
  have row: "update_device_row data d = Inr (upd d)" if "d \<in> set (devices s)" for d
  proof -
    have "devices_check d"
      using checks that by (simp add: list_all_iff)
    then have "devices_check (upd d)"
      using device_column_check [of d "upd d" data] col dv by blast
    then show ?thesis
      by (simp add: update_device_row_def set)
  qed
  let ?P = "\<lambda>d. d_id d = uuid_in id0"
  obtain hit ds where u: "update_where ?P (update_device_row data) (devices s) = Inr (hit, ds)"
    using update_where_total [of "devices s" ?P "update_device_row data"] row by auto
  have ds: "ds = map (\<lambda>d. if ?P d then upd d else d) (devices s)"
    using update_where_Inr [OF u] row by auto
  have hit: "hit = map upd (filter ?P (devices s))"
    using update_where_Inr [OF u] row by auto
  have entries: "filter (\<lambda>(k, v). k \<in> set device_allowed) data = data"
    using vals(2) by (auto simp: filter_id_conv)
  have "patch_device id0 (JObj p) s =
        ((case filter ?P (devices s) of
            [] \<Rightarrow> (404, Message ''Device not found'')
          | d # ds \<Rightarrow> (200, DeviceRow (upd d))),
         s\<lparr>devices := map (\<lambda>d. if ?P d then upd d else d) (devices s)\<rparr>)"
    using wf some
    by (simp add: patch_device_def valid entries update_devices_def u ds hit split: list.splits)
  then show ?thesis
    using frame by blast
qed

text \<open>
  C4. For a well-formed identifier and a valid Device-update payload with at least one
  recognised field, on a table that satisfies its \<open>CHECK\<close> constraints, the handler
  rewrites the rows of that identifier by a function \<open>upd\<close> and leaves every other row
  and the links alone; it answers 200 with the rewritten row, or 404 when no row has
  the identifier. In a rewritten row a column holds the payload's value when it is one
  of \<open>name\<close>, \<open>type\<close>, \<open>ip\<close>, \<open>status\<close>, \<open>x\<close>, \<open>y\<close> and the payload has it, and its old
  value otherwise; so \<open>id\<close> and \<open>created_at\<close> keep their values whatever the payload
  holds, and a payload with \<open>status\<close> alone changes \<open>status\<close> alone.
\<close>

theorem patch_device_frame:
  assumes wf: "is_uuid id0"
    and valid: "safeParse deviceUpdateSchema (JObj p) = Inr data"
    and some: "data \<noteq> []"
    and checks: "list_all devices_check (devices s)"
  shows "\<exists>upd.
      patch_device id0 (JObj p) s =
        ((case filter (\<lambda>d. d_id d = uuid_in id0) (devices s) of
            [] \<Rightarrow> (404, Message ''Device not found'')
          | d # ds \<Rightarrow> (200, DeviceRow (upd d))),
         s\<lparr>devices := map (\<lambda>d. if d_id d = uuid_in id0 then upd d else d) (devices s)\<rparr>) \<and>
      (\<forall>d c. device_column c (upd d) =
         (if c \<in> set device_allowed
          then (case map_of p c of None \<Rightarrow> device_column c d | Some v \<Rightarrow> v)
          else device_column c d))"
  using assms by (rule patch_device_valid)

theorem patch_device_frame_witness:
  "is_uuid ''aaaaaaaa-0000-4000-8000-000000000001'' \<and>
   safeParse deviceUpdateSchema (JObj [(''status'', JStr ''down''), (''id'', JStr ''x'')]) =
     Inr [(''status'', JStr ''down'')] \<and>
   list_all devices_check (devices sample_store) \<and>
   (\<exists>upd.
      patch_device ''aaaaaaaa-0000-4000-8000-000000000001''
         (JObj [(''status'', JStr ''down''), (''id'', JStr ''x'')]) sample_store =
        ((200, DeviceRow (upd dev_a)), sample_store\<lparr>devices := [upd dev_a, dev_b]\<rparr>) \<and>
      device_column ''status'' (upd dev_a) = JStr ''down'' \<and>
      device_column ''id'' (upd dev_a) = device_column ''id'' dev_a \<and>
      device_column ''name'' (upd dev_a) = device_column ''name'' dev_a \<and>
      device_column ''type'' (upd dev_a) = device_column ''type'' dev_a \<and>
      device_column ''ip'' (upd dev_a) = device_column ''ip'' dev_a \<and>
      device_column ''x'' (upd dev_a) = device_column ''x'' dev_a \<and>
      device_column ''y'' (upd dev_a) = device_column ''y'' dev_a \<and>
      device_column ''created_at'' (upd dev_a) = device_column ''created_at'' dev_a)"
proof -
  let ?p = "[(''status'', JStr ''down''), (''id'', JStr ''x'')]"
  have wf: "is_uuid ''aaaaaaaa-0000-4000-8000-000000000001''"
    by (simp add: uuid_defs)
  have v: "safeParse deviceUpdateSchema (JObj ?p) = Inr [(''status'', JStr ''down'')]"
    by (simp add: safeParse_def deviceUpdateSchema_def deviceCreateSchema_def partial_def)
  have c: "list_all devices_check (devices sample_store)"
    by (simp add: sample_defs devices_check_def)
  have ne: "[(''status'', JStr ''down'')] \<noteq> []"
    by simp
  from patch_device_frame [OF wf v ne c] obtain upd where
    r: "patch_device ''aaaaaaaa-0000-4000-8000-000000000001'' (JObj ?p) sample_store =
        ((case filter (\<lambda>d. d_id d = uuid_in ''aaaaaaaa-0000-4000-8000-000000000001'') (devices sample_store) of
            [] \<Rightarrow> (404, Message ''Device not found'')
          | d # ds \<Rightarrow> (200, DeviceRow (upd d))),
         sample_store\<lparr>devices := map (\<lambda>d. if d_id d = uuid_in ''aaaaaaaa-0000-4000-8000-000000000001'' then upd d else d) (devices sample_store)\<rparr>)"
    and f: "\<And>d c. device_column c (upd d) =
         (if c \<in> set device_allowed
          then (case map_of ?p c of None \<Rightarrow> device_column c d | Some v \<Rightarrow> v)
          else device_column c d)"
    by blast
  have r': "patch_device ''aaaaaaaa-0000-4000-8000-000000000001'' (JObj ?p) sample_store =
        ((200, DeviceRow (upd dev_a)), sample_store\<lparr>devices := [upd dev_a, dev_b]\<rparr>)"
    unfolding r by (simp add: uuid_defs sample_store_def dev_a_def dev_b_def)
  show ?thesis
    using wf v c r' by (intro conjI exI [of _ upd]) (simp_all add: f device_allowed_def)
qed

section \<open>The topology projection\<close>

text \<open>
  C5. \<open>GET /topology\<close> answers with as many nodes as there are device rows and as many
  edges as there are link rows. The nodes are the devices, and the edges the links,
  taken in ascending \<open>created_at\<close>: node by node the identifier is the device's, and
  edge by edge the identifier, \<open>source\<close> and \<open>target\<close> are the link's \<open>id\<close>, \<open>from_id\<close>
  and \<open>to_id\<close>. The store is left as it was.
\<close>

theorem get_topology_projection:
  "\<exists>nodes edges ds ls.
     get_topology s = ((200, Topology nodes edges), s) \<and>
     length nodes = length (devices s) \<and> length edges = length (links s) \<and>
     mset ds = mset (devices s) \<and> sorted (map d_created_at ds) \<and>
     map n_id nodes = map d_id ds \<and>
     mset ls = mset (links s) \<and> sorted (map l_created_at ls) \<and>
     map (\<lambda>e. (e_id e, e_source e, e_target e)) edges = map (\<lambda>l. (l_id l, l_from_id l, l_to_id l)) ls"
proof -
  let ?ds = "sort_key d_created_at (devices s)" and ?ls = "sort_key l_created_at (links s)"
  let ?node = "\<lambda>d. \<lparr>n_id = d_id d, n_type = ''device'', n_position = (d_x d, d_y d),
                             n_data = \<lparr>data_name = d_name d, data_type = d_type d,
                                       data_ip = d_ip d, data_status = d_status d\<rparr>\<rparr>"
  let ?edge = "\<lambda>l. \<lparr>e_id = l_id l, e_source = l_from_id l, e_target = l_to_id l,
                             e_label = l_label l, e_data_status = Some (l_status l),
                             e_sourceHandle = l_from_handle l, e_targetHandle = l_to_handle l\<rparr>"
  have g: "get_topology s = ((200, Topology (map ?node ?ds) (map ?edge ?ls)), s)"
    by (simp add: get_topology_def devices_by_created_at_def links_by_created_at_def)
  have n: "map n_id (map ?node ?ds) = map d_id ?ds"
    by (simp add: o_def)
  have e: "map (\<lambda>e. (e_id e, e_source e, e_target e)) (map ?edge ?ls) = map (\<lambda>l. (l_id l, l_from_id l, l_to_id l)) ?ls"
    by (simp add: o_def)
  have l: "length (map ?node ?ds) = length (devices s)" "length (map ?edge ?ls) = length (links s)"
    by simp_all
  have m: "mset ?ds = mset (devices s)" "sorted (map d_created_at ?ds)"
    "mset ?ls = mset (links s)" "sorted (map l_created_at ?ls)"
    by simp_all
  show ?thesis
    using g n e l m by blast
qed

theorem get_topology_projection_witness:
  "\<exists>nodes edges.
     get_topology sample_store = ((200, Topology nodes edges), sample_store) \<and>
     length nodes = 2 \<and> length edges = 2 \<and>
     map n_id nodes = [d_id dev_a, d_id dev_b] \<and>
     map (\<lambda>e. (e_id e, e_source e, e_target e)) edges =
       [(l_id link_ab, d_id dev_a, d_id dev_b), (l_id link_ab_docked, d_id dev_a, d_id dev_b)]"
proof -
  from get_topology_projection [of sample_store] obtain nodes edges where
    g: "get_topology sample_store = ((200, Topology nodes edges), sample_store)"
    and l: "length nodes = length (devices sample_store)" "length edges = length (links sample_store)"
    by blast
  have "get_topology sample_store =
     ((200, Topology
         [\<lparr>n_id = d_id dev_a, n_type = ''device'', n_position = (0, 0),
           n_data = \<lparr>data_name = ''SW1'', data_type = ''switch'', data_ip = None, data_status = ''up''\<rparr>\<rparr>,
          \<lparr>n_id = d_id dev_b, n_type = ''device'', n_position = (120, 340),
           n_data = \<lparr>data_name = ''R1'', data_type = ''router'', data_ip = Some ''10.0.0.1'', data_status = ''warn''\<rparr>\<rparr>]
         [\<lparr>e_id = l_id link_ab, e_source = d_id dev_a, e_target = d_id dev_b, e_label = None,
           e_data_status = Some ''up'', e_sourceHandle = None, e_targetHandle = None\<rparr>,
          \<lparr>e_id = l_id link_ab_docked, e_source = d_id dev_a, e_target = d_id dev_b, e_label = Some ''uplink'',
           e_data_status = Some ''up'', e_sourceHandle = Some ''a'', e_targetHandle = Some ''b''\<rparr>]),
      sample_store)"
    by (simp add: get_topology_def devices_by_created_at_def links_by_created_at_def sample_defs)
  with g have m: "map n_id nodes = [d_id dev_a, d_id dev_b]"
    "map (\<lambda>e. (e_id e, e_source e, e_target e)) edges =
       [(l_id link_ab, d_id dev_a, d_id dev_b), (l_id link_ab_docked, d_id dev_a, d_id dev_b)]"
    by auto
  have n: "length nodes = 2" "length edges = 2"
    using l by (simp_all add: sample_store_def)
  show ?thesis
    by (intro exI [of _ nodes] exI [of _ edges] conjI) (rule g n m)+
qed

section \<open>Extra fields in a payload\<close>

lemma safeParse_shape_keys:
  assumes "\<forall>k \<in> fst ` set shape. map_of p' k = map_of p k"
  shows "safeParse shape (JObj p') = safeParse shape (JObj p)"
proof -
  have "(\<lambda>(k, t). if \<not> accepts t (map_of p' k) then [k] else []) x =
        (\<lambda>(k, t). if \<not> accepts t (map_of p k) then [k] else []) x"
    and "(\<lambda>(k, t). map (Pair k) (case map_of p' k of None \<Rightarrow> [] | Some v \<Rightarrow> [v])) x =
         (\<lambda>(k, t). map (Pair k) (case map_of p k of None \<Rightarrow> [] | Some v \<Rightarrow> [v])) x"
    if "x \<in> set shape" for x
    using that assms by (auto split: prod.splits)
  then have e1: "map (\<lambda>(k, t). if \<not> accepts t (map_of p' k) then [k] else []) shape =
        map (\<lambda>(k, t). if \<not> accepts t (map_of p k) then [k] else []) shape"
    and e2: "map (\<lambda>(k, t). map (Pair k) (case map_of p' k of None \<Rightarrow> [] | Some v \<Rightarrow> [v])) shape =
         map (\<lambda>(k, t). map (Pair k) (case map_of p k of None \<Rightarrow> [] | Some v \<Rightarrow> [v])) shape"
    by (simp_all cong: map_cong)
  show ?thesis
    unfolding safeParse_def by (simp only: e1 e2 json.case)
qed

text \<open>
  C6 as stated fails: a position update whose body has a \<open>name\<close> beside \<open>x\<close> and \<open>y\<close>
  is answered 200, and the coordinates are written.
\<close>

theorem position_extra_field_accepted:
  "patch_device_position ''aaaaaaaa-0000-4000-8000-000000000001''
     (JObj [(''x'', JNum 7), (''y'', JNum 9), (''name'', JStr ''renamed'')]) sample_store =
   ((200, DeviceRow (dev_a\<lparr>d_x := 7, d_y := 9\<rparr>)),
    sample_store\<lparr>devices := [dev_a\<lparr>d_x := 7, d_y := 9\<rparr>, dev_b]\<rparr>)"
  by (simp add: patch_device_position_def safeParse_def devicePositionSchema_def
      update_device_position_def sample_defs uuid_defs)

lemma update_where_Inr_fun:
  "update_where P (\<lambda>r. Inr (g r)) rs = Inr (map g (filter P rs), map (\<lambda>r. if P r then g r else r) rs)"
  by (induction rs) simp_all

lemma patch_device_position_valid:
  assumes "is_uuid id0" and "map_of p ''x'' = Some (JNum a)" and "map_of p ''y'' = Some (JNum b)"
  shows "patch_device_position id0 (JObj p) s =
     ((case filter (\<lambda>d. d_id d = uuid_in id0) (devices s) of
         [] \<Rightarrow> (404, Message ''Device not found'')
       | d # ds \<Rightarrow> (200, DeviceRow (d\<lparr>d_x := a, d_y := b\<rparr>))),
      s\<lparr>devices := map (\<lambda>d. if d_id d = uuid_in id0 then d\<lparr>d_x := a, d_y := b\<rparr> else d) (devices s)\<rparr>)"
proof -
  have v: "safeParse devicePositionSchema (JObj p) = Inr [(''x'', JNum a), (''y'', JNum b)]"
    using assms(2,3) by (simp add: safeParse_def devicePositionSchema_def)
  have u: "update_device_position (uuid_in id0) (Some a) (Some b) s =
      Inr (map (\<lambda>d. d\<lparr>d_x := a, d_y := b\<rparr>) (filter (\<lambda>d. d_id d = uuid_in id0) (devices s)),
           s\<lparr>devices := map (\<lambda>d. if d_id d = uuid_in id0 then d\<lparr>d_x := a, d_y := b\<rparr> else d) (devices s)\<rparr>)"
    by (simp add: update_device_position_def update_where_Inr_fun)
  show ?thesis
    using assms(1) by (simp add: patch_device_position_def v u split: list.splits)
qed

text \<open>
  C6 as amended. The outcome of a validator depends only on the fields its shape
  names: two bodies that agree on those fields are parsed alike, whatever else they
  hold, and that is so for the position validator as for the other four. The position
  validator accepts a body exactly when \<open>x\<close> and \<open>y\<close> are both numbers, and the
  position update treats two bodies with the same \<open>x\<close> and \<open>y\<close> alike. A position
  update with a well-formed identifier and numbers \<open>x\<close> and \<open>y\<close>, whatever other fields
  its body holds, is answered 200 with the row of that identifier (404 when there is
  none), and the store afterwards is the store before with \<open>x\<close> and \<open>y\<close> of that row
  set to the two numbers and nothing else changed.
\<close>

theorem validators_ignore_extra_fields:
  "((\<forall>k \<in> fst ` set shape. map_of p' k = map_of p k) \<longrightarrow>
      safeParse shape (JObj p') = safeParse shape (JObj p)) \<and>
   ((\<exists>data. safeParse devicePositionSchema (JObj p) = Inr data) \<longleftrightarrow>
      (\<exists>a b. map_of p ''x'' = Some (JNum a) \<and> map_of p ''y'' = Some (JNum b))) \<and>
   (map_of p' ''x'' = map_of p ''x'' \<and> map_of p' ''y'' = map_of p ''y'' \<longrightarrow>
      patch_device_position id0 (JObj p') s = patch_device_position id0 (JObj p) s) \<and>
   (is_uuid id0 \<and> map_of p ''x'' = Some (JNum a) \<and> map_of p ''y'' = Some (JNum b) \<longrightarrow>
      patch_device_position id0 (JObj p) s =
        ((case filter (\<lambda>d. d_id d = uuid_in id0) (devices s) of
            [] \<Rightarrow> (404, Message ''Device not found'')
          | d # ds \<Rightarrow> (200, DeviceRow (d\<lparr>d_x := a, d_y := b\<rparr>))),
         s\<lparr>devices := map (\<lambda>d. if d_id d = uuid_in id0 then d\<lparr>d_x := a, d_y := b\<rparr> else d)
                          (devices s)\<rparr>))"
proof (intro conjI impI)
  assume "\<forall>k \<in> fst ` set shape. map_of p' k = map_of p k"
  then show "safeParse shape (JObj p') = safeParse shape (JObj p)"
    by (rule safeParse_shape_keys)
next
  have x: "accepts ZNumber v \<longleftrightarrow> (\<exists>r. v = Some (JNum r))" for v
    by (cases "(ZNumber, v)" rule: accepts.cases) auto
  show "(\<exists>data. safeParse devicePositionSchema (JObj p) = Inr data) \<longleftrightarrow>
      (\<exists>a b. map_of p ''x'' = Some (JNum a) \<and> map_of p ''y'' = Some (JNum b))"
    by (auto simp: safeParse_def devicePositionSchema_def x Let_def)
next
  assume "map_of p' ''x'' = map_of p ''x'' \<and> map_of p' ''y'' = map_of p ''y''"
  then have "safeParse devicePositionSchema (JObj p') = safeParse devicePositionSchema (JObj p)"
    by (intro safeParse_shape_keys) (simp add: devicePositionSchema_def)
  then show "patch_device_position id0 (JObj p') s = patch_device_position id0 (JObj p) s"
    by (simp add: patch_device_position_def)
next
  assume "is_uuid id0 \<and> map_of p ''x'' = Some (JNum a) \<and> map_of p ''y'' = Some (JNum b)"
  then show "patch_device_position id0 (JObj p) s =
        ((case filter (\<lambda>d. d_id d = uuid_in id0) (devices s) of
            [] \<Rightarrow> (404, Message ''Device not found'')
          | d # ds \<Rightarrow> (200, DeviceRow (d\<lparr>d_x := a, d_y := b\<rparr>))),
         s\<lparr>devices := map (\<lambda>d. if d_id d = uuid_in id0 then d\<lparr>d_x := a, d_y := b\<rparr> else d)
                          (devices s)\<rparr>)"
    using patch_device_position_valid [of id0 p a b s] by blast
qed

theorem validators_ignore_extra_fields_witness:
  "(\<exists>data. safeParse devicePositionSchema (JObj [(''x'', JNum 7), (''y'', JNum 9)]) = Inr data) \<and>
   safeParse devicePositionSchema (JObj [(''x'', JNum 7), (''y'', JNum 9), (''name'', JStr ''renamed'')]) =
     safeParse devicePositionSchema (JObj [(''x'', JNum 7), (''y'', JNum 9)]) \<and>
   patch_device_position ''aaaaaaaa-0000-4000-8000-000000000001''
      (JObj [(''x'', JNum 7), (''y'', JNum 9), (''name'', JStr ''renamed'')]) sample_store =
     patch_device_position ''aaaaaaaa-0000-4000-8000-000000000001''
      (JObj [(''x'', JNum 7), (''y'', JNum 9)]) sample_store \<and>
   is_uuid ''aaaaaaaa-0000-4000-8000-000000000001'' \<and>
   patch_device_position ''aaaaaaaa-0000-4000-8000-000000000001''
      (JObj [(''x'', JNum 7), (''y'', JNum 9), (''name'', JStr ''renamed'')]) sample_store =
     ((200, DeviceRow (dev_a\<lparr>d_x := 7, d_y := 9\<rparr>)),
      sample_store\<lparr>devices := [dev_a\<lparr>d_x := 7, d_y := 9\<rparr>, dev_b]\<rparr>)"
proof -
  let ?a = "''aaaaaaaa-0000-4000-8000-000000000001''"
  let ?p = "[(''x'', JNum 7), (''y'', JNum 9)]"
  let ?p' = "[(''x'', JNum 7), (''y'', JNum 9), (''name'', JStr ''renamed'')]"
  have k: "\<forall>k \<in> fst ` set devicePositionSchema. map_of ?p' k = map_of ?p k"
    by (simp add: devicePositionSchema_def)
  have n: "\<exists>a b. map_of ?p ''x'' = Some (JNum a) \<and> map_of ?p ''y'' = Some (JNum b)"
    by simp
  have xy: "map_of ?p' ''x'' = map_of ?p ''x'' \<and> map_of ?p' ''y'' = map_of ?p ''y''"
    by simp
  have wf: "is_uuid ?a"
    by (simp add: uuid_defs)
  have xy': "map_of ?p' ''x'' = Some (JNum 7) \<and> map_of ?p' ''y'' = Some (JNum 9)"
    by simp
  note t = validators_ignore_extra_fields [of devicePositionSchema ?p' ?p ?a sample_store]
  note t' = validators_ignore_extra_fields [of _ _ ?p' ?a sample_store 7 9]
  have c1: "\<exists>data. safeParse devicePositionSchema (JObj ?p) = Inr data"
    using t [THEN conjunct2, THEN conjunct1] n by blast
  have c2: "safeParse devicePositionSchema (JObj ?p') = safeParse devicePositionSchema (JObj ?p)"
    using t [THEN conjunct1] k by blast
  have c3: "patch_device_position ?a (JObj ?p') sample_store = patch_device_position ?a (JObj ?p) sample_store"
    using t [THEN conjunct2, THEN conjunct2, THEN conjunct1] xy by blast
  have "patch_device_position ?a (JObj ?p') sample_store =
        ((case filter (\<lambda>d. d_id d = uuid_in ?a) (devices sample_store) of
            [] \<Rightarrow> (404, Message ''Device not found'')
          | d # ds \<Rightarrow> (200, DeviceRow (d\<lparr>d_x := 7, d_y := 9\<rparr>))),
         sample_store\<lparr>devices := map (\<lambda>d. if d_id d = uuid_in ?a then d\<lparr>d_x := 7, d_y := 9\<rparr> else d)
                          (devices sample_store)\<rparr>)"
    using t' [THEN conjunct2, THEN conjunct2, THEN conjunct2] wf xy' by blast
  then have c4: "patch_device_position ?a (JObj ?p') sample_store =
     ((200, DeviceRow (dev_a\<lparr>d_x := 7, d_y := 9\<rparr>)),
      sample_store\<lparr>devices := [dev_a\<lparr>d_x := 7, d_y := 9\<rparr>, dev_b]\<rparr>)"
    by (simp add: uuid_defs sample_store_def dev_a_def dev_b_def)
  show ?thesis
    by (intro conjI) (rule c1 c2 c3 wf c4)+
qed

section \<open>Selection\<close>

text \<open>
  C8 as stated fails: when the canvas reports a node and an edge together, both are
  recorded.
\<close>

theorem onSelectionChange_node_and_edge:
  "selectedNodeId (onSelectionChange (Some [flow_a, flow_b]) (Some [flow_ab])) =
     Some ''aaaaaaaa-0000-4000-8000-000000000001'' \<and>
   selectedEdgeId (onSelectionChange (Some [flow_a, flow_b]) (Some [flow_ab])) =
     Some ''cccccccc-0000-4000-8000-000000000003''"
  by (simp add: onSelectionChange_def flow_a_def flow_ab_def)

text \<open>
  C8 as amended. After a selection-change event the selected node is the first
  reported node, or none when no node is reported, and the selected edge is the first
  reported edge, or none when no edge is reported, each independently of the other: a
  node and an edge are both recorded exactly when the canvas reports at least one of
  each.
\<close>

theorem onSelectionChange_first:
  "(selectedNodeId (onSelectionChange ns es) = None \<longleftrightarrow> ns = None \<or> ns = Some []) \<and>
   (\<forall>n rest. ns = Some (n # rest) \<longrightarrow> selectedNodeId (onSelectionChange ns es) = Some (fn_id n)) \<and>
   (selectedEdgeId (onSelectionChange ns es) = None \<longleftrightarrow> es = None \<or> es = Some []) \<and>
   (\<forall>e rest. es = Some (e # rest) \<longrightarrow> selectedEdgeId (onSelectionChange ns es) = Some (fe_id e)) \<and>
   (selectedNodeId (onSelectionChange ns es) \<noteq> None \<and>
    selectedEdgeId (onSelectionChange ns es) \<noteq> None \<longleftrightarrow>
      (\<exists>n ns' e es'. ns = Some (n # ns') \<and> es = Some (e # es')))"
  by (auto simp: onSelectionChange_def split: option.splits list.splits)

theorem onSelectionChange_first_witness:
  "selectedNodeId (onSelectionChange (Some [flow_b, flow_a]) None) = Some (fn_id flow_b) \<and>
   selectedEdgeId (onSelectionChange (Some [flow_b, flow_a]) None) = None"
  using onSelectionChange_first [of "Some [flow_b, flow_a]" None]
  by simp

section \<open>Search\<close>






section \<open>Null fields in an update\<close>

lemma accepts_null: "\<not> accepts t (Some JNull)"
  by (induction t) simp_all

lemma safeParse_null_field:
  assumes "(c, t) \<in> set shape" and "map_of p c = Some JNull"
  shows "\<exists>fs. safeParse shape (JObj p) = Inl (FieldErrors fs) \<and> c \<in> set fs"
proof -
  let ?bad = "[k. (k, t) \<leftarrow> shape, \<not> accepts t (map_of p k)]"
  have "c \<in> set ?bad"
    using assms accepts_null by force
  then have "?bad \<noteq> []"
    by (metis empty_iff empty_set)
  then have "safeParse shape (JObj p) = Inl (FieldErrors ?bad)"
    unfolding safeParse_def Let_def by (simp only: json.case if_False)
  then show ?thesis
    using \<open>c \<in> set ?bad\<close> by blast
qed

lemma patch_device_null:
  assumes "c \<in> set device_allowed" and "map_of p c = Some JNull"
  shows "fst (fst (patch_device id0 (JObj p) s)) = 400 \<and> snd (patch_device id0 (JObj p) s) = s \<and>
         (is_uuid id0 \<longrightarrow> (\<exists>fs. fst (patch_device id0 (JObj p) s) = (400, Flatten (FieldErrors fs)) \<and> c \<in> set fs))"
proof -
  have "c \<in> fst ` set deviceUpdateSchema"
    using assms(1)
    by (simp add: deviceUpdateSchema_def deviceCreateSchema_def partial_def device_allowed_def)
  then obtain t where "(c, t) \<in> set deviceUpdateSchema" by auto
  from safeParse_null_field [OF this assms(2)] obtain fs where
    "safeParse deviceUpdateSchema (JObj p) = Inl (FieldErrors fs)" "c \<in> set fs" by blast
  then show ?thesis
    by (simp add: patch_device_def)
qed

lemma patch_link_null:
  assumes "c \<in> set [''status'', ''label'', ''fromHandle'', ''toHandle'']" and "map_of p c = Some JNull"
  shows "fst (fst (patch_link id0 (JObj p) s)) = 400 \<and> snd (patch_link id0 (JObj p) s) = s \<and>
         (is_uuid id0 \<longrightarrow> (\<exists>fs. fst (patch_link id0 (JObj p) s) = (400, Flatten (FieldErrors fs)) \<and> c \<in> set fs))"
proof -
  have "c \<in> fst ` set linkUpdateSchema"
    using assms(1) by (simp add: linkUpdateSchema_def partial_def)
  then obtain t where "(c, t) \<in> set linkUpdateSchema" by auto
  from safeParse_null_field [OF this assms(2)] obtain fs where
    "safeParse linkUpdateSchema (JObj p) = Inl (FieldErrors fs)" "c \<in> set fs" by blast
  then show ?thesis
    by (simp add: patch_link_def)
qed

lemma set_devices_ip:
  assumes "set_devices es d = Inr d'" and "\<forall>(k, v) \<in> set es. k = ''ip'' \<longrightarrow> (\<exists>a. v = JStr a)"
    and "d_ip d \<noteq> None"
  shows "d_ip d' \<noteq> None"
  using assms
proof (induction es arbitrary: d)
  case Nil
  then show ?case by simp
next
  case (Cons a es)
  obtain k v where a: "a = (k, v)" by (cases a)
  from Cons.prems(1) obtain d1 where s: "set_device k v d = Inr d1" and r: "set_devices es d1 = Inr d'"
    by (auto simp: a split: sum.splits)
  have "d_ip d1 \<noteq> None"
  proof (cases "k = ''ip''")
    case True
    then obtain b where "v = JStr b" using Cons.prems(2) by (auto simp: a)
    then show ?thesis using s True by (auto simp: set_device_def)
  next
    case False
    then have "d_ip d1 = d_ip d"
      using s by (auto simp: set_device_def split: if_splits option.splits sum.splits)
    then show ?thesis using Cons.prems(3) by simp
  qed
  then show ?case
    using Cons.IH [OF r] Cons.prems(2) by (simp add: a)
qed

lemma set_links_text:
  assumes "set_links es l = Inr l'" and "\<forall>(k, v) \<in> set es. \<exists>a. v = JStr a"
  shows "(l_label l \<noteq> None \<longrightarrow> l_label l' \<noteq> None) \<and>
         (l_from_handle l \<noteq> None \<longrightarrow> l_from_handle l' \<noteq> None) \<and>
         (l_to_handle l \<noteq> None \<longrightarrow> l_to_handle l' \<noteq> None)"
  using assms
proof (induction es arbitrary: l)
  case Nil
  then show ?case by simp
next
  case (Cons a es)
  obtain k v where a: "a = (k, v)" by (cases a)
  from Cons.prems(1) obtain l1 where s: "set_link k v l = Inr l1" and r: "set_links es l1 = Inr l'"
    by (auto simp: a split: sum.splits)
  obtain b where v: "v = JStr b" using Cons.prems(2) by (auto simp: a)
  have "(l_label l \<noteq> None \<longrightarrow> l_label l1 \<noteq> None) \<and>
         (l_from_handle l \<noteq> None \<longrightarrow> l_from_handle l1 \<noteq> None) \<and>
         (l_to_handle l \<noteq> None \<longrightarrow> l_to_handle l1 \<noteq> None)"
    using s by (auto simp: set_link_def v split: if_splits option.splits sum.splits)
  then show ?case
    using Cons.IH [OF r] Cons.prems(2) by (simp add: a)
qed

lemma set_links_assigned:
  assumes "set_links es l = Inr l'" and "distinct (map fst es)"
  shows "(map_of es ''label'' = Some (JStr a) \<longrightarrow> l_label l' = Some a) \<and>
         (map_of es ''from_handle'' = Some (JStr a) \<longrightarrow> l_from_handle l' = Some a) \<and>
         (map_of es ''to_handle'' = Some (JStr a) \<longrightarrow> l_to_handle l' = Some a) \<and>
         (map_of es ''label'' = None \<longrightarrow> l_label l' = l_label l) \<and>
         (map_of es ''from_handle'' = None \<longrightarrow> l_from_handle l' = l_from_handle l) \<and>
         (map_of es ''to_handle'' = None \<longrightarrow> l_to_handle l' = l_to_handle l)"
  using assms
proof (induction es arbitrary: l)
  case Nil
  then show ?case by simp
next
  case (Cons x es)
  obtain k v where x: "x = (k, v)" by (cases x)
  from Cons.prems(1) obtain l1 where s: "set_link k v l = Inr l1" and r: "set_links es l1 = Inr l'"
    by (auto simp: x split: sum.splits)
  from Cons.prems(2) have d: "distinct (map fst es)" and k: "map_of es k = None"
    by (auto simp: x map_of_eq_None_iff)
  note ih = Cons.IH [OF r d]
  have l1: "l_label l1 = (if k = ''label'' then text_param (Some v) else l_label l)"
    "l_from_handle l1 = (if k = ''from_handle'' then text_param (Some v) else l_from_handle l)"
    "l_to_handle l1 = (if k = ''to_handle'' then text_param (Some v) else l_to_handle l)"
    using s by (auto simp: set_link_def split: if_splits option.splits sum.splits)
  show ?case
    using ih k l1 by (auto simp: x)
qed

lemma linkUpdateSchema_entries:
  assumes valid: "safeParse linkUpdateSchema (JObj p) = Inr data"
    and entries: "entries = filter (\<lambda>(k, v). k \<in> set link_allowed) (map (\<lambda>(k, v). (mapKey k, v)) data)"
  shows "distinct (map fst entries)"
    and "\<forall>(k, v) \<in> set entries. \<exists>a. v = JStr a"
    and "map_of entries ''label'' = map_of p ''label''"
    and "map_of entries ''from_handle'' = map_of p ''fromHandle''"
    and "map_of entries ''to_handle'' = map_of p ''toHandle''"
proof -
  have str: "accepts (ZOptional (ZOptional (ZString 0))) v \<Longrightarrow> v = None \<or> (\<exists>a. v = Some (JStr a))"
    and enum: "accepts (ZOptional (ZOptional (ZEnum vs))) v \<Longrightarrow> v = None \<or> (\<exists>a. v = Some (JStr a))"
    for v vs
    using accepts_ZString [of 0 v] accepts_ZEnum [of vs v] by (auto simp: accepts_ZOptional)
  have st: "map_of p ''status'' = None \<or> (\<exists>a. map_of p ''status'' = Some (JStr a))"
    using safeParse_accepts [OF valid, of "''status''"] enum
    by (simp add: linkUpdateSchema_def partial_def)
  have lb: "map_of p ''label'' = None \<or> (\<exists>a. map_of p ''label'' = Some (JStr a))"
    using safeParse_accepts [OF valid, of "''label''"] str
    by (simp add: linkUpdateSchema_def partial_def)
  have fh: "map_of p ''fromHandle'' = None \<or> (\<exists>a. map_of p ''fromHandle'' = Some (JStr a))"
    using safeParse_accepts [OF valid, of "''fromHandle''"] str
    by (simp add: linkUpdateSchema_def partial_def)
  have th: "map_of p ''toHandle'' = None \<or> (\<exists>a. map_of p ''toHandle'' = Some (JStr a))"
    using safeParse_accepts [OF valid, of "''toHandle''"] str
    by (simp add: linkUpdateSchema_def partial_def)
  have data: "data =
      (case map_of p ''status'' of None \<Rightarrow> [] | Some v \<Rightarrow> [(''status'', v)]) @
      (case map_of p ''label'' of None \<Rightarrow> [] | Some v \<Rightarrow> [(''label'', v)]) @
      (case map_of p ''fromHandle'' of None \<Rightarrow> [] | Some v \<Rightarrow> [(''fromHandle'', v)]) @
      (case map_of p ''toHandle'' of None \<Rightarrow> [] | Some v \<Rightarrow> [(''toHandle'', v)])"
    using valid by (simp add: safeParse_JObj linkUpdateSchema_def partial_def split: option.splits)
  have e: "entries =
      (case map_of p ''status'' of None \<Rightarrow> [] | Some v \<Rightarrow> [(''status'', v)]) @
      (case map_of p ''label'' of None \<Rightarrow> [] | Some v \<Rightarrow> [(''label'', v)]) @
      (case map_of p ''fromHandle'' of None \<Rightarrow> [] | Some v \<Rightarrow> [(''from_handle'', v)]) @
      (case map_of p ''toHandle'' of None \<Rightarrow> [] | Some v \<Rightarrow> [(''to_handle'', v)])"
    unfolding entries data by (simp add: mapKey_def link_allowed_def split: option.splits)
  show "distinct (map fst entries)"
    unfolding e by (simp split: option.splits)
  show "\<forall>(k, v) \<in> set entries. \<exists>a. v = JStr a"
    unfolding e using st lb fh th by (auto split: option.splits)
  show "map_of entries ''label'' = map_of p ''label''"
    unfolding e by (simp split: option.splits)
  show "map_of entries ''from_handle'' = map_of p ''fromHandle''"
    unfolding e by (simp split: option.splits)
  show "map_of entries ''to_handle'' = map_of p ''toHandle''"
    unfolding e by (simp split: option.splits)
qed

lemma kept_same:
  assumes "distinct (map key rs)"
  shows "\<forall>r \<in> set rs. \<forall>r' \<in> set rs. key r' = key r \<and> Q r \<longrightarrow> Q r'"
  using assms by (auto simp: distinct_map dest: inj_onD)

lemma kept_filter:
  assumes "distinct (map key rs)"
  shows "\<forall>r \<in> set rs. \<forall>r' \<in> set (filter R rs). key r' = key r \<and> Q r \<longrightarrow> Q r'"
  using assms by (auto simp: distinct_map dest: inj_onD)

lemma kept_append:
  assumes "distinct (map key rs)" and "key row \<notin> set (map key rs)"
  shows "\<forall>r \<in> set rs. \<forall>r' \<in> set (rs @ [row]). key r' = key r \<and> Q r \<longrightarrow> Q r'"
  using assms by (auto simp: distinct_map dest: inj_onD)

lemma update_where_kept:
  assumes u: "update_where P f rs = Inr (hit, rs')"
    and d: "distinct (map key rs)"
    and f: "\<And>r r'. f r = Inr r' \<Longrightarrow> key r' = key r \<and> (Q r \<longrightarrow> Q r')"
  shows "\<forall>r \<in> set rs. \<forall>r' \<in> set rs'. key r' = key r \<and> Q r \<longrightarrow> Q r'"
proof (intro ballI impI)
  fix r r'
  assume r: "r \<in> set rs" and r': "r' \<in> set rs'" and k: "key r' = key r \<and> Q r"
  note w = update_where_Inr [OF u]
  from w r' obtain r0 where r0: "r0 \<in> set rs" and g: "r' = (if P r0 then projr (f r0) else r0)"
    by auto
  have g': "key r' = key r0 \<and> (Q r0 \<longrightarrow> Q r')"
  proof (cases "P r0")
    case True
    then have "\<not> isl (f r0)" using w r0 by blast
    then have "f r0 = Inr (projr (f r0))" by simp
    from f [OF this] show ?thesis using g True by simp
  next
    case False
    then show ?thesis using g by simp
  qed
  then have "key r0 = key r" using k by simp
  then have "r0 = r"
    using d r r0 by (auto simp: distinct_map dest: inj_onD)
  then show "Q r'" using g' k by simp
qed

lemma patch_device_cases:
  "(snd (patch_device id0 body s) = s \<and> fst (fst (patch_device id0 body s)) \<noteq> 200) \<or>
   (\<exists>p data hit s'. body = JObj p \<and> is_uuid id0 \<and>
      safeParse deviceUpdateSchema (JObj p) = Inr data \<and>
      update_devices (uuid_in id0) (filter (\<lambda>(k, v). k \<in> set device_allowed) data) s = Inr (hit, s') \<and>
      patch_device id0 body s =
        ((case hit of [] \<Rightarrow> (404, Message ''Device not found'') | r # rs \<Rightarrow> (200, DeviceRow r)), s'))"
proof (cases "is_uuid id0")
  case False
  then show ?thesis by (simp add: patch_device_def)
next
  case True
  show ?thesis
  proof (cases "safeParse deviceUpdateSchema body")
    case (Inl err)
    then show ?thesis using True by (simp add: patch_device_def)
  next
    case (Inr data)
    then obtain p where p: "body = JObj p" using safeParse_object by blast
    show ?thesis
      using True Inr p
      by (auto simp: patch_device_def Let_def internal_server_error_def split: sum.splits list.splits)
  qed
qed

lemma patch_link_cases:
  "(snd (patch_link id0 body s) = s \<and> fst (fst (patch_link id0 body s)) \<noteq> 200) \<or>
   (\<exists>p data hit s'. body = JObj p \<and> is_uuid id0 \<and>
      safeParse linkUpdateSchema (JObj p) = Inr data \<and>
      update_links (uuid_in id0)
        (filter (\<lambda>(k, v). k \<in> set link_allowed) (map (\<lambda>(k, v). (mapKey k, v)) data)) s = Inr (hit, s') \<and>
      patch_link id0 body s =
        ((case hit of [] \<Rightarrow> (404, Message ''Link not found'') | r # rs \<Rightarrow> (200, LinkRow r)), s'))"
proof (cases "is_uuid id0")
  case False
  then show ?thesis by (simp add: patch_link_def)
next
  case True
  show ?thesis
  proof (cases "safeParse linkUpdateSchema body")
    case (Inl err)
    then show ?thesis using True by (simp add: patch_link_def)
  next
    case (Inr data)
    then obtain p where p: "body = JObj p" using safeParse_object by blast
    show ?thesis
      using True Inr p
      by (auto simp: patch_link_def Let_def internal_server_error_def split: sum.splits list.splits)
  qed
qed

lemma deviceUpdateSchema_entries:
  assumes "safeParse deviceUpdateSchema (JObj p) = Inr data"
  shows "filter (\<lambda>(k, v). k \<in> set device_allowed) data = data"
  using deviceUpdateSchema_values(2) [OF assms] by (auto simp: filter_id_conv)

lemma device_value_ip: "device_value ''ip'' v \<Longrightarrow> \<exists>a. v = JStr a"
  by (simp add: device_value_def)

lemma patch_device_kept:
  assumes "distinct (map d_id (devices s))"
  shows "\<forall>d \<in> set (devices s). \<forall>d' \<in> set (devices (snd (patch_device id0 body s))).
           d_id d' = d_id d \<and> d_ip d \<noteq> None \<longrightarrow> d_ip d' \<noteq> None"
  using patch_device_cases [of id0 body s]
proof
  assume "snd (patch_device id0 body s) = s \<and> fst (fst (patch_device id0 body s)) \<noteq> 200"
  then show ?thesis using kept_same [OF assms] by simp
next
  assume "\<exists>p data hit s'. body = JObj p \<and> is_uuid id0 \<and>
      safeParse deviceUpdateSchema (JObj p) = Inr data \<and>
      update_devices (uuid_in id0) (filter (\<lambda>(k, v). k \<in> set device_allowed) data) s = Inr (hit, s') \<and>
      patch_device id0 body s =
        ((case hit of [] \<Rightarrow> (404, Message ''Device not found'') | r # rs \<Rightarrow> (200, DeviceRow r)), s')"
  then obtain p data hit s' where valid: "safeParse deviceUpdateSchema (JObj p) = Inr data"
    and u0: "update_devices (uuid_in id0) (filter (\<lambda>(k, v). k \<in> set device_allowed) data) s = Inr (hit, s')"
    and r: "patch_device id0 body s =
        ((case hit of [] \<Rightarrow> (404, Message ''Device not found'') | r # rs \<Rightarrow> (200, DeviceRow r)), s')"
    by blast
  have u: "update_devices (uuid_in id0) data s = Inr (hit, s')"
    using u0 by (simp only: deviceUpdateSchema_entries [OF valid])
  have s': "snd (patch_device id0 body s) = s'"
    by (simp add: r)
  from u obtain ds where w: "update_where (\<lambda>d. d_id d = uuid_in id0) (update_device_row data) (devices s) = Inr (hit, ds)"
    and ds: "s' = s\<lparr>devices := ds\<rparr>"
    by (auto simp: update_devices_def split: sum.splits)
  have ip: "\<forall>(k, v) \<in> set data. k = ''ip'' \<longrightarrow> (\<exists>a. v = JStr a)"
    using deviceUpdateSchema_values(2) [OF valid] device_value_ip by blast
  have row: "d_id r' = d_id r \<and> (d_ip r \<noteq> None \<longrightarrow> d_ip r' \<noteq> None)"
    if "update_device_row data r = Inr r'" for r r'
  proof -
    from that have "set_devices data r = Inr r'"
      by (auto simp: update_device_row_def split: sum.splits if_splits)
    then show ?thesis
      using update_device_row_keeps [OF that] set_devices_ip [OF _ ip, of r r'] by blast
  qed
  have "\<forall>d \<in> set (devices s). \<forall>d' \<in> set ds. d_id d' = d_id d \<and> d_ip d \<noteq> None \<longrightarrow> d_ip d' \<noteq> None"
    by (rule update_where_kept [OF w assms]) (use row in blast)
  then show ?thesis by (simp add: s' ds)
qed

lemma patch_link_kept:
  assumes "distinct (map l_id (links s))"
  shows "(\<forall>l \<in> set (links s). \<forall>l' \<in> set (links (snd (patch_link id0 body s))).
            l_id l' = l_id l \<and> l_label l \<noteq> None \<longrightarrow> l_label l' \<noteq> None) \<and>
         (\<forall>l \<in> set (links s). \<forall>l' \<in> set (links (snd (patch_link id0 body s))).
            l_id l' = l_id l \<and> l_from_handle l \<noteq> None \<longrightarrow> l_from_handle l' \<noteq> None) \<and>
         (\<forall>l \<in> set (links s). \<forall>l' \<in> set (links (snd (patch_link id0 body s))).
            l_id l' = l_id l \<and> l_to_handle l \<noteq> None \<longrightarrow> l_to_handle l' \<noteq> None)"
  using patch_link_cases [of id0 body s]
proof
  assume "snd (patch_link id0 body s) = s \<and> fst (fst (patch_link id0 body s)) \<noteq> 200"
  then have eq: "snd (patch_link id0 body s) = s" by (rule conjunct1)
  note k = kept_same [OF assms, of "\<lambda>l. l_label l \<noteq> None"]
    kept_same [OF assms, of "\<lambda>l. l_from_handle l \<noteq> None"]
    kept_same [OF assms, of "\<lambda>l. l_to_handle l \<noteq> None"]
  show ?thesis
    unfolding eq by (intro conjI) (rule k)+
next
  assume "\<exists>p data hit s'. body = JObj p \<and> is_uuid id0 \<and>
      safeParse linkUpdateSchema (JObj p) = Inr data \<and>
      update_links (uuid_in id0)
        (filter (\<lambda>(k, v). k \<in> set link_allowed) (map (\<lambda>(k, v). (mapKey k, v)) data)) s = Inr (hit, s') \<and>
      patch_link id0 body s =
        ((case hit of [] \<Rightarrow> (404, Message ''Link not found'') | r # rs \<Rightarrow> (200, LinkRow r)), s')"
  then obtain p data hit s' entries where valid: "safeParse linkUpdateSchema (JObj p) = Inr data"
    and entries: "entries = filter (\<lambda>(k, v). k \<in> set link_allowed) (map (\<lambda>(k, v). (mapKey k, v)) data)"
    and u: "update_links (uuid_in id0) entries s = Inr (hit, s')"
    and s': "snd (patch_link id0 body s) = s'"
    by auto
  let ?f = "update_link_row (filter (\<lambda>l. l_id l \<noteq> uuid_in id0) (links s)) entries"
  from u obtain ls where w: "update_where (\<lambda>l. l_id l = uuid_in id0) ?f (links s) = Inr (hit, ls)"
    and ls: "s' = s\<lparr>links := ls\<rparr>"
    by (auto simp: update_links_def split: sum.splits)
  note str = linkUpdateSchema_entries(2) [OF valid entries]
  have row: "l_id r' = l_id r \<and>
      (l_label r \<noteq> None \<longrightarrow> l_label r' \<noteq> None) \<and>
      (l_from_handle r \<noteq> None \<longrightarrow> l_from_handle r' \<noteq> None) \<and>
      (l_to_handle r \<noteq> None \<longrightarrow> l_to_handle r' \<noteq> None)"
    if "?f r = Inr r'" for r r'
  proof -
    from that have "set_links entries r = Inr r'"
      by (auto simp: update_link_row_def split: sum.splits if_splits)
    then show ?thesis
      using update_link_row_keeps [OF that] set_links_text [OF _ str, of r r'] by blast
  qed
  have a: "\<forall>l \<in> set (links s). \<forall>l' \<in> set ls. l_id l' = l_id l \<and> l_label l \<noteq> None \<longrightarrow> l_label l' \<noteq> None"
    by (rule update_where_kept [OF w assms]) (use row in blast)
  have b: "\<forall>l \<in> set (links s). \<forall>l' \<in> set ls. l_id l' = l_id l \<and> l_from_handle l \<noteq> None \<longrightarrow> l_from_handle l' \<noteq> None"
    by (rule update_where_kept [OF w assms]) (use row in blast)
  have c: "\<forall>l \<in> set (links s). \<forall>l' \<in> set ls. l_id l' = l_id l \<and> l_to_handle l \<noteq> None \<longrightarrow> l_to_handle l' \<noteq> None"
    by (rule update_where_kept [OF w assms]) (use row in blast)
  have l: "links (snd (patch_link id0 body s)) = ls"
    by (simp add: s' ls)
  show ?thesis
    unfolding l by (intro conjI) (rule a b c)+
qed

lemma patch_device_position_cases:
  "snd (patch_device_position id0 body s) = s \<or>
   (\<exists>px py hit ds.
      update_where (\<lambda>d. d_id d = uuid_in id0)
        (\<lambda>d. case (px, py) of (Some a, Some b) \<Rightarrow> Inr (d\<lparr>d_x := a, d_y := b\<rparr>)
              | _ \<Rightarrow> Inl not_null_violation) (devices s) = Inr (hit, ds) \<and>
      snd (patch_device_position id0 body s) = s\<lparr>devices := ds\<rparr>)"
proof (cases "is_uuid id0")
  case False
  then show ?thesis by (simp add: patch_device_position_def)
next
  case True
  show ?thesis
  proof (cases "safeParse devicePositionSchema body")
    case (Inl err)
    then show ?thesis using True by (simp add: patch_device_position_def)
  next
    case (Inr data)
    let ?px = "float_param (map_of data ''x'')" and ?py = "float_param (map_of data ''y'')"
    let ?f = "\<lambda>d. case (?px, ?py) of (Some a, Some b) \<Rightarrow> Inr (d\<lparr>d_x := a, d_y := b\<rparr>)
              | _ \<Rightarrow> Inl not_null_violation"
    show ?thesis
    proof (cases "update_where (\<lambda>d. d_id d = uuid_in id0) ?f (devices s)")
      case (Inl err)
      then have "snd (patch_device_position id0 body s) = s"
        using True Inr by (simp add: patch_device_position_def update_device_position_def)
      then show ?thesis by simp
    next
      case u: (Inr res)
      obtain hit ds where res: "res = (hit, ds)" by (cases res)
      have "snd (patch_device_position id0 body s) = s\<lparr>devices := ds\<rparr>"
        using True Inr u res
        by (simp add: patch_device_position_def update_device_position_def split: list.splits)
      then show ?thesis
        using u res by blast
    qed
  qed
qed

lemma patch_device_position_kept:
  assumes "distinct (map d_id (devices s))"
  shows "\<forall>d \<in> set (devices s). \<forall>d' \<in> set (devices (snd (patch_device_position id0 body s))).
           d_id d' = d_id d \<and> d_ip d \<noteq> None \<longrightarrow> d_ip d' \<noteq> None"
  using patch_device_position_cases [of id0 body s]
proof
  assume "snd (patch_device_position id0 body s) = s"
  then show ?thesis using kept_same [OF assms] by simp
next
  assume "\<exists>px py hit ds.
      update_where (\<lambda>d. d_id d = uuid_in id0)
        (\<lambda>d. case (px, py) of (Some a, Some b) \<Rightarrow> Inr (d\<lparr>d_x := a, d_y := b\<rparr>)
              | _ \<Rightarrow> Inl not_null_violation) (devices s) = Inr (hit, ds) \<and>
      snd (patch_device_position id0 body s) = s\<lparr>devices := ds\<rparr>"
  then obtain px py hit ds where
    u: "update_where (\<lambda>d. d_id d = uuid_in id0)
        (\<lambda>d. case (px, py) of (Some a, Some b) \<Rightarrow> Inr (d\<lparr>d_x := a, d_y := b\<rparr>)
              | _ \<Rightarrow> Inl not_null_violation) (devices s) = Inr (hit, ds)"
    and s': "snd (patch_device_position id0 body s) = s\<lparr>devices := ds\<rparr>"
    by blast
  have "\<forall>d \<in> set (devices s). \<forall>d' \<in> set ds. d_id d' = d_id d \<and> d_ip d \<noteq> None \<longrightarrow> d_ip d' \<noteq> None"
    by (rule update_where_kept [OF u assms]) (auto split: option.splits)
  then show ?thesis by (simp add: s')
qed

lemma update_where_first:
  assumes "update_where P f rs = Inr (r' # hit, rs')"
  shows "\<exists>r \<in> set rs. P r \<and> f r = Inr r'"
proof -
  note i = update_where_Inr [OF assms]
  then have "map (\<lambda>r. projr (f r)) (filter P rs) = r' # hit" by simp
  then obtain r0 rest where fl: "filter P rs = r0 # rest" and r': "r' = projr (f r0)"
    by (cases "filter P rs") auto
  have "r0 \<in> set (filter P rs)" by (simp add: fl)
  then have r0: "r0 \<in> set rs" "P r0" by simp_all
  then have "\<not> isl (f r0)" using i by blast
  then have "f r0 = Inr r'" using r' by simp
  then show ?thesis using r0 by blast
qed

lemma patch_device_replaces_ip:
  assumes "fst (patch_device id0 (JObj p) s) = (200, DeviceRow d')"
    and "map_of p ''ip'' = Some (JStr a)"
  shows "d_ip d' = Some a"
  using patch_device_cases [of id0 "JObj p" s]
proof
  assume "snd (patch_device id0 (JObj p) s) = s \<and> fst (fst (patch_device id0 (JObj p) s)) \<noteq> 200"
  then show ?thesis using assms(1) by simp
next
  assume "\<exists>p' data hit s'. JObj p = JObj p' \<and> is_uuid id0 \<and>
      safeParse deviceUpdateSchema (JObj p') = Inr data \<and>
      update_devices (uuid_in id0) (filter (\<lambda>(k, v). k \<in> set device_allowed) data) s = Inr (hit, s') \<and>
      patch_device id0 (JObj p) s =
        ((case hit of [] \<Rightarrow> (404, Message ''Device not found'') | r # rs \<Rightarrow> (200, DeviceRow r)), s')"
  then obtain data hit s' where valid: "safeParse deviceUpdateSchema (JObj p) = Inr data"
    and u0: "update_devices (uuid_in id0) (filter (\<lambda>(k, v). k \<in> set device_allowed) data) s = Inr (hit, s')"
    and r: "patch_device id0 (JObj p) s =
        ((case hit of [] \<Rightarrow> (404, Message ''Device not found'') | r # rs \<Rightarrow> (200, DeviceRow r)), s')"
    by auto
  have u: "update_devices (uuid_in id0) data s = Inr (hit, s')"
    using u0 by (simp only: deviceUpdateSchema_entries [OF valid])
  from r assms(1) obtain rs where hit: "hit = d' # rs"
    by (cases hit) auto
  from u obtain ds where w: "update_where (\<lambda>d. d_id d = uuid_in id0) (update_device_row data) (devices s) = Inr (hit, ds)"
    by (auto simp: update_devices_def split: sum.splits)
  from update_where_first [OF w [unfolded hit]] obtain d0 where
    "update_device_row data d0 = Inr d'" by blast
  then have sd: "set_devices data d0 = Inr d'"
    by (auto simp: update_device_row_def split: sum.splits if_splits)
  note vals = deviceUpdateSchema_values [OF valid]
  have dv: "\<forall>(k, v) \<in> set data. device_value k v"
    using vals(2) by auto
  from set_devices_column [OF vals(1) dv, of d0] sd
  have "device_column ''ip'' d' = (case map_of data ''ip'' of None \<Rightarrow> device_column ''ip'' d0 | Some v \<Rightarrow> v)"
    by auto
  moreover have "map_of data ''ip'' = Some (JStr a)"
    using vals(3) [of "''ip''"] assms(2) by (simp add: device_allowed_def)
  ultimately have "device_column ''ip'' d' = JStr a"
    by simp
  then show ?thesis
    by (simp add: device_column_def split: option.splits)
qed

lemma patch_link_replaces:
  assumes "fst (patch_link id0 (JObj p) s) = (200, LinkRow l')"
  shows "(map_of p ''label'' = Some (JStr a) \<longrightarrow> l_label l' = Some a) \<and>
         (map_of p ''fromHandle'' = Some (JStr a) \<longrightarrow> l_from_handle l' = Some a) \<and>
         (map_of p ''toHandle'' = Some (JStr a) \<longrightarrow> l_to_handle l' = Some a)"
  using patch_link_cases [of id0 "JObj p" s]
proof
  assume "snd (patch_link id0 (JObj p) s) = s \<and> fst (fst (patch_link id0 (JObj p) s)) \<noteq> 200"
  then show ?thesis using assms(1) by simp
next
  assume "\<exists>p' data hit s'. JObj p = JObj p' \<and> is_uuid id0 \<and>
      safeParse linkUpdateSchema (JObj p') = Inr data \<and>
      update_links (uuid_in id0)
        (filter (\<lambda>(k, v). k \<in> set link_allowed) (map (\<lambda>(k, v). (mapKey k, v)) data)) s = Inr (hit, s') \<and>
      patch_link id0 (JObj p) s =
        ((case hit of [] \<Rightarrow> (404, Message ''Link not found'') | r # rs \<Rightarrow> (200, LinkRow r)), s')"
  then obtain data hit s' entries where valid: "safeParse linkUpdateSchema (JObj p) = Inr data"
    and entries: "entries = filter (\<lambda>(k, v). k \<in> set link_allowed) (map (\<lambda>(k, v). (mapKey k, v)) data)"
    and u: "update_links (uuid_in id0) entries s = Inr (hit, s')"
    and r: "patch_link id0 (JObj p) s =
        ((case hit of [] \<Rightarrow> (404, Message ''Link not found'') | r # rs \<Rightarrow> (200, LinkRow r)), s')"
    by auto
  from r assms(1) obtain rs where hit: "hit = l' # rs"
    by (cases hit) auto
  let ?f = "update_link_row (filter (\<lambda>l. l_id l \<noteq> uuid_in id0) (links s)) entries"
  from u obtain ls where w: "update_where (\<lambda>l. l_id l = uuid_in id0) ?f (links s) = Inr (hit, ls)"
    by (auto simp: update_links_def split: sum.splits)
  from update_where_first [OF w [unfolded hit]] obtain l0 where
    "?f l0 = Inr l'" by blast
  then have sl: "set_links entries l0 = Inr l'"
    by (auto simp: update_link_row_def split: sum.splits if_splits)
  note e = linkUpdateSchema_entries [OF valid entries]
  show ?thesis
    using set_links_assigned [OF sl e(1), of a] e(3,4,5) by simp
qed

lemma text_fields_kept_tables:
  assumes "devices s' = ds" and "links s' = ls"
    and "\<forall>d \<in> set (devices s). \<forall>d' \<in> set ds. d_id d' = d_id d \<and> d_ip d \<noteq> None \<longrightarrow> d_ip d' \<noteq> None"
    and "\<forall>l \<in> set (links s). \<forall>l' \<in> set ls. l_id l' = l_id l \<and> l_label l \<noteq> None \<longrightarrow> l_label l' \<noteq> None"
    and "\<forall>l \<in> set (links s). \<forall>l' \<in> set ls. l_id l' = l_id l \<and> l_from_handle l \<noteq> None \<longrightarrow> l_from_handle l' \<noteq> None"
    and "\<forall>l \<in> set (links s). \<forall>l' \<in> set ls. l_id l' = l_id l \<and> l_to_handle l \<noteq> None \<longrightarrow> l_to_handle l' \<noteq> None"
  shows "text_fields_kept s s'"
  unfolding text_fields_kept_def assms(1,2) using assms(3-) by blast

lemma text_fields_kept_routes:
  assumes dd: "distinct (map d_id (devices s))" and dl: "distinct (map l_id (links s))"
  shows "text_fields_kept s (snd (routes e r s))"
proof -
  note dsame = kept_same [OF dd, of "\<lambda>d. d_ip d \<noteq> None"]
  note lsame = kept_same [OF dl, of "\<lambda>l. l_label l \<noteq> None"]
    kept_same [OF dl, of "\<lambda>l. l_from_handle l \<noteq> None"]
    kept_same [OF dl, of "\<lambda>l. l_to_handle l \<noteq> None"]
  have same: "text_fields_kept s s"
    by (rule text_fields_kept_tables [OF refl refl]) (rule dsame lsame)+
  show ?thesis
  proof (cases r)
    case GET_health
    then have "snd (routes e r s) = s" by (simp add: get_tables)
    then show ?thesis using same by simp
  next
    case GET_topology
    then have "snd (routes e r s) = s" by (simp add: get_tables)
    then show ?thesis using same by simp
  next
    case GET_devices
    then have "snd (routes e r s) = s" by (simp add: get_tables)
    then show ?thesis using same by simp
  next
    case (GET_device id0)
    then have "snd (routes e r s) = s" by (simp add: get_tables)
    then show ?thesis using same by simp
  next
    case GET_links
    then have "snd (routes e r s) = s" by (simp add: get_tables)
    then show ?thesis using same by simp
  next
    case (POST_devices body)
    then have eq: "snd (routes e r s) = snd (post_devices e body s)" by simp
    from post_devices_tables [of e body s] show ?thesis
    proof
      assume "snd (post_devices e body s) = s"
      then show ?thesis using same eq by simp
    next
      assume "\<exists>row. snd (post_devices e body s) = s\<lparr>devices := devices s @ [row]\<rparr> \<and>
          d_id row \<notin> set (map d_id (devices s))"
      then obtain row where s': "snd (post_devices e body s) = s\<lparr>devices := devices s @ [row]\<rparr>"
        and f: "d_id row \<notin> set (map d_id (devices s))"
        by blast
      have d: "devices (snd (routes e r s)) = devices s @ [row]"
        and l: "links (snd (routes e r s)) = links s"
        by (simp_all add: eq s')
      show ?thesis
        by (rule text_fields_kept_tables [OF d l])
          (rule kept_append [OF dd f, of "\<lambda>d. d_ip d \<noteq> None"] lsame)+
    qed
  next
    case (PATCH_device id0 body)
    then have eq: "snd (routes e r s) = snd (patch_device id0 body s)" by simp
    have l: "links (snd (routes e r s)) = links s"
      unfolding eq using patch_device_tables [of id0 body s] by (rule conjunct1)
    show ?thesis
      by (rule text_fields_kept_tables [OF refl l])
        (rule patch_device_kept [OF dd, of id0 body, folded eq] lsame)+
  next
    case (PATCH_device_position id0 body)
    then have eq: "snd (routes e r s) = snd (patch_device_position id0 body s)" by simp
    have l: "links (snd (routes e r s)) = links s"
      unfolding eq using patch_device_position_tables [of id0 body s] by (rule conjunct1)
    show ?thesis
      by (rule text_fields_kept_tables [OF refl l])
        (rule patch_device_position_kept [OF dd, of id0 body, folded eq] lsame)+
  next
    case (DELETE_device id0)
    then have eq: "snd (routes e r s) = snd (delete_device id0 s)" by simp
    from delete_device_tables [of id0 s] show ?thesis
    proof
      assume "snd (delete_device id0 s) = s"
      then show ?thesis using same eq by simp
    next
      assume "fst (delete_device id0 s) = (204, NoContent) \<and>
        snd (delete_device id0 s) =
          s\<lparr>devices := filter (\<lambda>d. d_id d \<noteq> uuid_in id0) (devices s),
            links := filter (\<lambda>l. l_from_id l \<noteq> uuid_in id0 \<and> l_to_id l \<noteq> uuid_in id0) (links s)\<rparr>"
      then have s': "snd (delete_device id0 s) =
          s\<lparr>devices := filter (\<lambda>d. d_id d \<noteq> uuid_in id0) (devices s),
            links := filter (\<lambda>l. l_from_id l \<noteq> uuid_in id0 \<and> l_to_id l \<noteq> uuid_in id0) (links s)\<rparr>"
        by (rule conjunct2)
      have d: "devices (snd (routes e r s)) = filter (\<lambda>d. d_id d \<noteq> uuid_in id0) (devices s)"
        and l: "links (snd (routes e r s)) =
          filter (\<lambda>l. l_from_id l \<noteq> uuid_in id0 \<and> l_to_id l \<noteq> uuid_in id0) (links s)"
        by (simp_all add: eq s')
      show ?thesis
        by (rule text_fields_kept_tables [OF d l])
          (rule kept_filter [OF dd, where Q = "\<lambda>d. d_ip d \<noteq> None"]
            kept_filter [OF dl, where Q = "\<lambda>l. l_label l \<noteq> None"]
            kept_filter [OF dl, where Q = "\<lambda>l. l_from_handle l \<noteq> None"]
            kept_filter [OF dl, where Q = "\<lambda>l. l_to_handle l \<noteq> None"])+
    qed
  next
    case (POST_links body)
    then have eq: "snd (routes e r s) = snd (post_links e body s)" by simp
    from post_links_tables [of e body s] show ?thesis
    proof
      assume "snd (post_links e body s) = s"
      then show ?thesis using same eq by simp
    next
      assume "\<exists>row. snd (post_links e body s) = s\<lparr>links := links s @ [row]\<rparr> \<and>
          fst (post_links e body s) = (201, LinkRow row) \<and>
          l_id row \<notin> set (map l_id (links s)) \<and>
          l_from_id row \<in> set (map d_id (devices s)) \<and>
          l_to_id row \<in> set (map d_id (devices s))"
      then obtain row where s': "snd (post_links e body s) = s\<lparr>links := links s @ [row]\<rparr>"
        and f: "l_id row \<notin> set (map l_id (links s))"
        by blast
      have d: "devices (snd (routes e r s)) = devices s"
        and l: "links (snd (routes e r s)) = links s @ [row]"
        by (simp_all add: eq s')
      show ?thesis
        by (rule text_fields_kept_tables [OF d l])
          (rule dsame kept_append [OF dl f, of "\<lambda>l. l_label l \<noteq> None"]
            kept_append [OF dl f, of "\<lambda>l. l_from_handle l \<noteq> None"]
            kept_append [OF dl f, of "\<lambda>l. l_to_handle l \<noteq> None"])+
    qed
  next
    case (PATCH_link id0 body)
    then have eq: "snd (routes e r s) = snd (patch_link id0 body s)" by simp
    have d: "devices (snd (routes e r s)) = devices s"
      unfolding eq using patch_link_tables [of id0 body s] by (rule conjunct1)
    note k = patch_link_kept [OF dl, of id0 body, folded eq]
    show ?thesis
      by (rule text_fields_kept_tables [OF d refl])
        (rule dsame k [THEN conjunct1] k [THEN conjunct2, THEN conjunct1]
          k [THEN conjunct2, THEN conjunct2])+
  next
    case (DELETE_link id0)
    then have eq: "snd (routes e r s) = snd (delete_link id0 s)" by simp
    from delete_link_tables [of id0 s] obtain Q where
      d: "devices (snd (delete_link id0 s)) = devices s"
      and l: "links (snd (delete_link id0 s)) = filter Q (links s)"
      by blast
    show ?thesis
      by (rule text_fields_kept_tables [OF d [folded eq] l [folded eq]])
        (rule dsame kept_filter [OF dl, where Q = "\<lambda>l. l_label l \<noteq> None"]
          kept_filter [OF dl, where Q = "\<lambda>l. l_from_handle l \<noteq> None"]
          kept_filter [OF dl, where Q = "\<lambda>l. l_to_handle l \<noteq> None"])+
  qed
qed

lemma set_links_append:
  "set_links (xs @ ys) l = (case set_links xs l of Inl err \<Rightarrow> Inl err | Inr l' \<Rightarrow> set_links ys l')"
  by (induction xs arbitrary: l) (auto split: sum.splits)

lemma set_links_status:
  assumes "v = None \<or> (\<exists>a. v = Some (JStr a) \<and> a \<in> set link_status)"
  shows "set_links (case v of None \<Rightarrow> [] | Some x \<Rightarrow> [(''status'', x)]) l =
     Inr (l\<lparr>l_status := (case v of Some (JStr a) \<Rightarrow> a | _ \<Rightarrow> l_status l)\<rparr>)"
  using assms by (auto simp: set_link_def cast_enum_def)

lemma set_links_label:
  assumes "v = None \<or> (\<exists>a. v = Some (JStr a))"
  shows "set_links (case v of None \<Rightarrow> [] | Some x \<Rightarrow> [(''label'', x)]) l =
     Inr (l\<lparr>l_label := (case v of Some (JStr a) \<Rightarrow> Some a | _ \<Rightarrow> l_label l)\<rparr>)"
  using assms by (auto simp: set_link_def)

lemma set_links_from_handle:
  assumes "v = None \<or> (\<exists>a. v = Some (JStr a))"
  shows "set_links (case v of None \<Rightarrow> [] | Some x \<Rightarrow> [(''from_handle'', x)]) l =
     Inr (l\<lparr>l_from_handle := (case v of Some (JStr a) \<Rightarrow> Some a | _ \<Rightarrow> l_from_handle l)\<rparr>)"
  using assms by (auto simp: set_link_def)

lemma set_links_to_handle:
  assumes "v = None \<or> (\<exists>a. v = Some (JStr a))"
  shows "set_links (case v of None \<Rightarrow> [] | Some x \<Rightarrow> [(''to_handle'', x)]) l =
     Inr (l\<lparr>l_to_handle := (case v of Some (JStr a) \<Rightarrow> Some a | _ \<Rightarrow> l_to_handle l)\<rparr>)"
  using assms by (auto simp: set_link_def)

lemma linkUpdateSchema_fields:
  assumes valid: "safeParse linkUpdateSchema (JObj p) = Inr data"
  shows "map_of p ''status'' = None \<or> (\<exists>a. map_of p ''status'' = Some (JStr a) \<and> a \<in> set link_status)"
    and "map_of p ''label'' = None \<or> (\<exists>a. map_of p ''label'' = Some (JStr a))"
    and "map_of p ''fromHandle'' = None \<or> (\<exists>a. map_of p ''fromHandle'' = Some (JStr a))"
    and "map_of p ''toHandle'' = None \<or> (\<exists>a. map_of p ''toHandle'' = Some (JStr a))"
    and "data =
      (case map_of p ''status'' of None \<Rightarrow> [] | Some v \<Rightarrow> [(''status'', v)]) @
      (case map_of p ''label'' of None \<Rightarrow> [] | Some v \<Rightarrow> [(''label'', v)]) @
      (case map_of p ''fromHandle'' of None \<Rightarrow> [] | Some v \<Rightarrow> [(''fromHandle'', v)]) @
      (case map_of p ''toHandle'' of None \<Rightarrow> [] | Some v \<Rightarrow> [(''toHandle'', v)])"
    and "filter (\<lambda>(k, v). k \<in> set link_allowed) (map (\<lambda>(k, v). (mapKey k, v)) data) =
      (case map_of p ''status'' of None \<Rightarrow> [] | Some v \<Rightarrow> [(''status'', v)]) @
      (case map_of p ''label'' of None \<Rightarrow> [] | Some v \<Rightarrow> [(''label'', v)]) @
      (case map_of p ''fromHandle'' of None \<Rightarrow> [] | Some v \<Rightarrow> [(''from_handle'', v)]) @
      (case map_of p ''toHandle'' of None \<Rightarrow> [] | Some v \<Rightarrow> [(''to_handle'', v)])"
proof -
  have str: "accepts (ZOptional (ZOptional (ZString 0))) v \<Longrightarrow> v = None \<or> (\<exists>a. v = Some (JStr a))"
    and enum: "accepts (ZOptional (ZOptional (ZEnum vs))) v \<Longrightarrow> v = None \<or> (\<exists>a. v = Some (JStr a) \<and> a \<in> set vs)"
    for v vs
    using accepts_ZString [of 0 v] accepts_ZEnum [of vs v] by (auto simp: accepts_ZOptional)
  show "map_of p ''status'' = None \<or> (\<exists>a. map_of p ''status'' = Some (JStr a) \<and> a \<in> set link_status)"
    using safeParse_accepts [OF valid, of "''status''"] enum [of "[''up'', ''warn'', ''down'']"]
    by (simp add: linkUpdateSchema_def partial_def link_status_def)
  show "map_of p ''label'' = None \<or> (\<exists>a. map_of p ''label'' = Some (JStr a))"
    using safeParse_accepts [OF valid, of "''label''"] str
    by (simp add: linkUpdateSchema_def partial_def)
  show "map_of p ''fromHandle'' = None \<or> (\<exists>a. map_of p ''fromHandle'' = Some (JStr a))"
    using safeParse_accepts [OF valid, of "''fromHandle''"] str
    by (simp add: linkUpdateSchema_def partial_def)
  show "map_of p ''toHandle'' = None \<or> (\<exists>a. map_of p ''toHandle'' = Some (JStr a))"
    using safeParse_accepts [OF valid, of "''toHandle''"] str
    by (simp add: linkUpdateSchema_def partial_def)
  show data: "data =
      (case map_of p ''status'' of None \<Rightarrow> [] | Some v \<Rightarrow> [(''status'', v)]) @
      (case map_of p ''label'' of None \<Rightarrow> [] | Some v \<Rightarrow> [(''label'', v)]) @
      (case map_of p ''fromHandle'' of None \<Rightarrow> [] | Some v \<Rightarrow> [(''fromHandle'', v)]) @
      (case map_of p ''toHandle'' of None \<Rightarrow> [] | Some v \<Rightarrow> [(''toHandle'', v)])"
    using valid by (simp add: safeParse_JObj linkUpdateSchema_def partial_def split: option.splits)
  show "filter (\<lambda>(k, v). k \<in> set link_allowed) (map (\<lambda>(k, v). (mapKey k, v)) data) =
      (case map_of p ''status'' of None \<Rightarrow> [] | Some v \<Rightarrow> [(''status'', v)]) @
      (case map_of p ''label'' of None \<Rightarrow> [] | Some v \<Rightarrow> [(''label'', v)]) @
      (case map_of p ''fromHandle'' of None \<Rightarrow> [] | Some v \<Rightarrow> [(''from_handle'', v)]) @
      (case map_of p ''toHandle'' of None \<Rightarrow> [] | Some v \<Rightarrow> [(''to_handle'', v)])"
    unfolding data by (simp add: mapKey_def link_allowed_def split: option.splits)
qed

lemma set_links_link_patch:
  assumes valid: "safeParse linkUpdateSchema (JObj p) = Inr data"
    and entries: "entries = filter (\<lambda>(k, v). k \<in> set link_allowed) (map (\<lambda>(k, v). (mapKey k, v)) data)"
  shows "set_links entries l = Inr (link_patch p l)"
proof -
  note f = linkUpdateSchema_fields [OF valid]
  show ?thesis
    unfolding entries f(6)
    by (simp add: set_links_append set_links_status [OF f(1)] set_links_label [OF f(2)]
        set_links_from_handle [OF f(3)] set_links_to_handle [OF f(4)] link_patch_def
        cong: option.case_cong json.case_cong)
qed

lemma links_check_link_patch:
  assumes valid: "safeParse linkUpdateSchema (JObj p) = Inr data" and "links_check l"
  shows "links_check (link_patch p l)"
  using linkUpdateSchema_fields(1) [OF valid] assms(2)
  by (auto simp: links_check_def link_patch_def link_status_def)

lemma patch_link_valid:
  assumes wf: "is_uuid id0"
    and valid: "safeParse linkUpdateSchema (JObj p) = Inr data"
    and some: "data \<noteq> []"
    and checks: "list_all links_check (links s)"
    and free: "list_all (\<lambda>l. l_id l = uuid_in id0 \<longrightarrow>
                 \<not> list_ex (links_unique (link_patch p l))
                     (filter (\<lambda>m. l_id m \<noteq> uuid_in id0) (links s))) (links s)"
  shows "patch_link id0 (JObj p) s =
     ((case filter (\<lambda>l. l_id l = uuid_in id0) (links s) of
         [] \<Rightarrow> (404, Message ''Link not found'')
       | l # ls \<Rightarrow> (200, LinkRow (link_patch p l))),
      s\<lparr>links := map (\<lambda>l. if l_id l = uuid_in id0 then link_patch p l else l) (links s)\<rparr>)"
proof -
  define entries where "entries = filter (\<lambda>(k, v). k \<in> set link_allowed) (map (\<lambda>(k, v). (mapKey k, v)) data)"
  let ?P = "\<lambda>l. l_id l = uuid_in id0"
  let ?f = "update_link_row (filter (\<lambda>l. l_id l \<noteq> uuid_in id0) (links s)) entries"
  note fl = linkUpdateSchema_fields [OF valid]
  have ne: "entries \<noteq> []"
    using some unfolding entries_def fl(6) unfolding fl(5) by (auto split: option.splits)
  have row: "?f l = Inr (link_patch p l)" if "l \<in> set (links s)" and "?P l" for l
  proof -
    have "links_check l" using checks that(1) by (simp add: list_all_iff)
    then have c: "links_check (link_patch p l)" by (rule links_check_link_patch [OF valid])
    have u: "\<not> list_ex (links_unique (link_patch p l)) (filter (\<lambda>m. l_id m \<noteq> uuid_in id0) (links s))"
      using free that by (simp add: list_all_iff)
    show ?thesis
      using c u by (simp add: update_link_row_def set_links_link_patch [OF valid entries_def])
  qed
  obtain hit ls where u: "update_where ?P ?f (links s) = Inr (hit, ls)"
    using update_where_total [of "links s" ?P ?f] row by auto
  have ls: "ls = map (\<lambda>l. if ?P l then link_patch p l else l) (links s)"
    using update_where_Inr [OF u] row by auto
  have hit: "hit = map (link_patch p) (filter ?P (links s))"
    using update_where_Inr [OF u] row by auto
  have ul: "update_links (uuid_in id0) entries s = Inr (hit, s\<lparr>links := ls\<rparr>)"
    by (simp add: update_links_def u)
  show ?thesis
    using wf ne
    by (simp add: patch_link_def valid entries_def [symmetric] ul ls hit split: list.splits)
qed

lemma patch_device_sets_ip:
  assumes wf: "is_uuid id0"
    and valid: "safeParse deviceUpdateSchema (JObj p) = Inr data"
    and checks: "list_all devices_check (devices s)"
    and ip: "map_of p ''ip'' = Some (JStr a)"
    and ex: "uuid_in id0 \<in> set (map d_id (devices s))"
  shows "\<exists>d'. fst (patch_device id0 (JObj p) s) = (200, DeviceRow d') \<and> d_ip d' = Some a \<and>
              d' \<in> set (devices (snd (patch_device id0 (JObj p) s)))"
proof -
  have "map_of data ''ip'' = Some (JStr a)"
    using deviceUpdateSchema_values(3) [OF valid, of "''ip''"] ip by (simp add: device_allowed_def)
  then have some: "data \<noteq> []" by auto
  from patch_device_valid [OF wf valid some checks] obtain upd where
    r: "patch_device id0 (JObj p) s =
        ((case filter (\<lambda>d. d_id d = uuid_in id0) (devices s) of
            [] \<Rightarrow> (404, Message ''Device not found'')
          | d # ds \<Rightarrow> (200, DeviceRow (upd d))),
         s\<lparr>devices := map (\<lambda>d. if d_id d = uuid_in id0 then upd d else d) (devices s)\<rparr>)"
    and f: "\<And>d c. device_column c (upd d) =
         (if c \<in> set device_allowed
          then (case map_of p c of None \<Rightarrow> device_column c d | Some v \<Rightarrow> v)
          else device_column c d)"
    by blast
  from ex have "filter (\<lambda>d. d_id d = uuid_in id0) (devices s) \<noteq> []"
    by (auto simp: filter_empty_conv)
  then obtain d ds where fl: "filter (\<lambda>d. d_id d = uuid_in id0) (devices s) = d # ds"
    by (cases "filter (\<lambda>d. d_id d = uuid_in id0) (devices s)") auto
  then have "d \<in> set (filter (\<lambda>d. d_id d = uuid_in id0) (devices s))" by simp
  then have d: "d \<in> set (devices s)" "d_id d = uuid_in id0" by simp_all
  have 1: "fst (patch_device id0 (JObj p) s) = (200, DeviceRow (upd d))"
    by (simp add: r fl)
  have "device_column ''ip'' (upd d) = JStr a"
    using f [of "''ip''" d] ip by (simp add: device_allowed_def)
  then have 2: "d_ip (upd d) = Some a"
    by (simp add: device_column_def split: option.splits)
  have 3: "upd d \<in> set (devices (snd (patch_device id0 (JObj p) s)))"
    using d by (auto simp: r intro!: image_eqI [of _ _ d])
  show ?thesis using 1 2 3 by blast
qed

text \<open>
  C10. A Device-update body in which one of the recognised fields \<open>name\<close>, \<open>type\<close>, \<open>ip\<close>,
  \<open>status\<close>, \<open>x\<close>, \<open>y\<close> is \<open>null\<close>, and a Link-update body in which one of the recognised
  fields \<open>status\<close>, \<open>label\<close>, \<open>fromHandle\<close>, \<open>toHandle\<close> is \<open>null\<close>, is answered 400 and
  the store is left as it was; when the identifier is well formed the answer is the
  flattened validation error and it lists that field. (A \<open>null\<close> under a key that the
  schema does not name is dropped with the key, like any extra field.) Consequently no
  route clears an optional text column: on tables whose primary keys are distinct, a
  row whose \<open>ip\<close>, \<open>label\<close>, \<open>from_handle\<close> or \<open>to_handle\<close> is set still has it set after
  any request. The columns can be replaced: a partial update that is answered 200 and
  carries a string for \<open>ip\<close>, \<open>label\<close>, \<open>fromHandle\<close> or \<open>toHandle\<close> returns the row with
  that string in the column; a valid Device update with a string \<open>ip\<close> for an existing
  device, on a table that satisfies its \<open>CHECK\<close> constraints, is answered 200 with a
  row of the new table that holds that \<open>ip\<close>; and a valid Link update with at least one
  field, on a table that satisfies its \<open>CHECK\<close> constraint and where the rewritten row
  collides with no other row in the unique index, is answered 200 with the row
  \<open>link_patch\<close> gives (404 when no row has the identifier) and rewrites the rows of the
  identifier to it.
\<close>

theorem null_fields_rejected:
  "(c \<in> set device_allowed \<and> map_of p c = Some JNull \<longrightarrow>
      fst (fst (patch_device id0 (JObj p) s)) = 400 \<and> snd (patch_device id0 (JObj p) s) = s \<and>
      (is_uuid id0 \<longrightarrow>
         (\<exists>fs. fst (patch_device id0 (JObj p) s) = (400, Flatten (FieldErrors fs)) \<and> c \<in> set fs))) \<and>
   (c \<in> set [''status'', ''label'', ''fromHandle'', ''toHandle''] \<and> map_of p c = Some JNull \<longrightarrow>
      fst (fst (patch_link id0 (JObj p) s)) = 400 \<and> snd (patch_link id0 (JObj p) s) = s \<and>
      (is_uuid id0 \<longrightarrow>
         (\<exists>fs. fst (patch_link id0 (JObj p) s) = (400, Flatten (FieldErrors fs)) \<and> c \<in> set fs))) \<and>
   (distinct (map d_id (devices s)) \<and> distinct (map l_id (links s)) \<longrightarrow>
      text_fields_kept s (snd (routes e r s))) \<and>
   (fst (patch_device id0 (JObj p) s) = (200, DeviceRow d') \<and> map_of p ''ip'' = Some (JStr a) \<longrightarrow>
      d_ip d' = Some a) \<and>
   (fst (patch_link id0 (JObj p) s) = (200, LinkRow l') \<longrightarrow>
      (map_of p ''label'' = Some (JStr a) \<longrightarrow> l_label l' = Some a) \<and>
      (map_of p ''fromHandle'' = Some (JStr a) \<longrightarrow> l_from_handle l' = Some a) \<and>
      (map_of p ''toHandle'' = Some (JStr a) \<longrightarrow> l_to_handle l' = Some a)) \<and>
   (is_uuid id0 \<and> (\<exists>data. safeParse deviceUpdateSchema (JObj p) = Inr data) \<and>
    list_all devices_check (devices s) \<and> map_of p ''ip'' = Some (JStr a) \<and>
    uuid_in id0 \<in> set (map d_id (devices s)) \<longrightarrow>
      (\<exists>d. fst (patch_device id0 (JObj p) s) = (200, DeviceRow d) \<and> d_ip d = Some a \<and>
           d \<in> set (devices (snd (patch_device id0 (JObj p) s))))) \<and>
   (is_uuid id0 \<and> (\<exists>data. safeParse linkUpdateSchema (JObj p) = Inr data \<and> data \<noteq> []) \<and>
    list_all links_check (links s) \<and>
    list_all (\<lambda>l. l_id l = uuid_in id0 \<longrightarrow>
                \<not> list_ex (links_unique (link_patch p l))
                    (filter (\<lambda>m. l_id m \<noteq> uuid_in id0) (links s))) (links s) \<longrightarrow>
      patch_link id0 (JObj p) s =
        ((case filter (\<lambda>l. l_id l = uuid_in id0) (links s) of
            [] \<Rightarrow> (404, Message ''Link not found'')
          | l # ls \<Rightarrow> (200, LinkRow (link_patch p l))),
         s\<lparr>links := map (\<lambda>l. if l_id l = uuid_in id0 then link_patch p l else l) (links s)\<rparr>))"
proof (intro conjI)
  show "c \<in> set device_allowed \<and> map_of p c = Some JNull \<longrightarrow>
      fst (fst (patch_device id0 (JObj p) s)) = 400 \<and> snd (patch_device id0 (JObj p) s) = s \<and>
      (is_uuid id0 \<longrightarrow>
         (\<exists>fs. fst (patch_device id0 (JObj p) s) = (400, Flatten (FieldErrors fs)) \<and> c \<in> set fs))"
    using patch_device_null [of c p id0 s] by blast
  show "c \<in> set [''status'', ''label'', ''fromHandle'', ''toHandle''] \<and> map_of p c = Some JNull \<longrightarrow>
      fst (fst (patch_link id0 (JObj p) s)) = 400 \<and> snd (patch_link id0 (JObj p) s) = s \<and>
      (is_uuid id0 \<longrightarrow>
         (\<exists>fs. fst (patch_link id0 (JObj p) s) = (400, Flatten (FieldErrors fs)) \<and> c \<in> set fs))"
    using patch_link_null [of c p id0 s] by blast
  show "distinct (map d_id (devices s)) \<and> distinct (map l_id (links s)) \<longrightarrow>
      text_fields_kept s (snd (routes e r s))"
    using text_fields_kept_routes [of s e r] by blast
  show "fst (patch_device id0 (JObj p) s) = (200, DeviceRow d') \<and> map_of p ''ip'' = Some (JStr a) \<longrightarrow>
      d_ip d' = Some a"
    using patch_device_replaces_ip [of id0 p s d' a] by blast
  show "fst (patch_link id0 (JObj p) s) = (200, LinkRow l') \<longrightarrow>
      (map_of p ''label'' = Some (JStr a) \<longrightarrow> l_label l' = Some a) \<and>
      (map_of p ''fromHandle'' = Some (JStr a) \<longrightarrow> l_from_handle l' = Some a) \<and>
      (map_of p ''toHandle'' = Some (JStr a) \<longrightarrow> l_to_handle l' = Some a)"
    using patch_link_replaces [of id0 p s l' a] by blast
  show "is_uuid id0 \<and> (\<exists>data. safeParse deviceUpdateSchema (JObj p) = Inr data) \<and>
    list_all devices_check (devices s) \<and> map_of p ''ip'' = Some (JStr a) \<and>
    uuid_in id0 \<in> set (map d_id (devices s)) \<longrightarrow>
      (\<exists>d. fst (patch_device id0 (JObj p) s) = (200, DeviceRow d) \<and> d_ip d = Some a \<and>
           d \<in> set (devices (snd (patch_device id0 (JObj p) s))))"
    using patch_device_sets_ip [of id0 p _ s a] by blast
  show "is_uuid id0 \<and> (\<exists>data. safeParse linkUpdateSchema (JObj p) = Inr data \<and> data \<noteq> []) \<and>
    list_all links_check (links s) \<and>
    list_all (\<lambda>l. l_id l = uuid_in id0 \<longrightarrow>
                \<not> list_ex (links_unique (link_patch p l))
                    (filter (\<lambda>m. l_id m \<noteq> uuid_in id0) (links s))) (links s) \<longrightarrow>
      patch_link id0 (JObj p) s =
        ((case filter (\<lambda>l. l_id l = uuid_in id0) (links s) of
            [] \<Rightarrow> (404, Message ''Link not found'')
          | l # ls \<Rightarrow> (200, LinkRow (link_patch p l))),
         s\<lparr>links := map (\<lambda>l. if l_id l = uuid_in id0 then link_patch p l else l) (links s)\<rparr>)"
    using patch_link_valid [of id0 p _ s] by blast
qed

theorem null_fields_rejected_witness:
  "fst (fst (patch_device ''bbbbbbbb-0000-4000-8000-000000000002'' (JObj [(''ip'', JNull)]) sample_store)) = 400 \<and>
   snd (patch_device ''bbbbbbbb-0000-4000-8000-000000000002'' (JObj [(''ip'', JNull)]) sample_store) = sample_store \<and>
   fst (fst (patch_link ''dddddddd-0000-4000-8000-000000000004'' (JObj [(''label'', JNull)]) sample_store)) = 400 \<and>
   snd (patch_link ''dddddddd-0000-4000-8000-000000000004'' (JObj [(''label'', JNull)]) sample_store) = sample_store \<and>
   distinct (map d_id (devices sample_store)) \<and> distinct (map l_id (links sample_store)) \<and>
   text_fields_kept sample_store
     (snd (routes sample_env
        (PATCH_device ''bbbbbbbb-0000-4000-8000-000000000002'' (JObj [(''ip'', JStr ''10.0.0.9'')]))
        sample_store)) \<and>
   (\<exists>d'. fst (patch_device ''bbbbbbbb-0000-4000-8000-000000000002'' (JObj [(''ip'', JStr ''10.0.0.9'')])
              sample_store) = (200, DeviceRow d') \<and>
         d_ip d' = Some ''10.0.0.9'') \<and>
   patch_link ''dddddddd-0000-4000-8000-000000000004''
      (JObj [(''label'', JStr ''core''), (''fromHandle'', JStr ''c'')]) sample_store =
     ((200, LinkRow (link_ab_docked\<lparr>l_label := Some ''core'', l_from_handle := Some ''c''\<rparr>)),
      sample_store\<lparr>links :=
        [link_ab, link_ab_docked\<lparr>l_label := Some ''core'', l_from_handle := Some ''c''\<rparr>]\<rparr>)"
proof -
  let ?b = "''bbbbbbbb-0000-4000-8000-000000000002''" and ?d = "''dddddddd-0000-4000-8000-000000000004''"
  let ?p = "[(''ip'', JStr ''10.0.0.9'')]"
  let ?pl = "[(''label'', JStr ''core''), (''fromHandle'', JStr ''c'')]"
  have c1: "''ip'' \<in> set device_allowed \<and> map_of [(''ip'', JNull)] ''ip'' = Some JNull"
    by (simp add: device_allowed_def)
  have c2: "''label'' \<in> set [''status'', ''label'', ''fromHandle'', ''toHandle''] \<and>
      map_of [(''label'', JNull)] ''label'' = Some JNull"
    by simp
  have dd: "distinct (map d_id (devices sample_store))"
    by (simp add: sample_defs)
  have dl: "distinct (map l_id (links sample_store))"
    by (simp add: sample_defs)
  have wf: "is_uuid ?b"
    by (simp add: uuid_defs)
  have wfd: "is_uuid ?d"
    by (simp add: uuid_defs)
  have v: "\<exists>data. safeParse deviceUpdateSchema (JObj ?p) = Inr data"
    by (simp add: safeParse_def deviceUpdateSchema_def deviceCreateSchema_def partial_def)
  have ck: "list_all devices_check (devices sample_store)"
    by (simp add: sample_defs devices_check_def)
  have m: "map_of ?p ''ip'' = Some (JStr ''10.0.0.9'')"
    by simp
  have ex: "uuid_in ?b \<in> set (map d_id (devices sample_store))"
    by (simp add: uuid_defs sample_defs)
  have vl: "\<exists>data. safeParse linkUpdateSchema (JObj ?pl) = Inr data \<and> data \<noteq> []"
    by (simp add: safeParse_def linkUpdateSchema_def partial_def)
  have ckl: "list_all links_check (links sample_store)"
    by (simp add: sample_defs links_check_def)
  have fr: "list_all (\<lambda>l. l_id l = uuid_in ?d \<longrightarrow>
                \<not> list_ex (links_unique (link_patch ?pl l))
                    (filter (\<lambda>m. l_id m \<noteq> uuid_in ?d) (links sample_store))) (links sample_store)"
    by (simp add: sample_defs uuid_defs link_patch_def links_unique_def)
  note t1 = null_fields_rejected [of "''ip''" "[(''ip'', JNull)]" ?b sample_store]
  note t2 = null_fields_rejected [of "''label''" "[(''label'', JNull)]" ?d sample_store]
  note t3 = null_fields_rejected [of "''ip''" ?p ?b sample_store sample_env
      "PATCH_device ?b (JObj ?p)" _ "''10.0.0.9''"]
  note t4 = null_fields_rejected [of _ ?pl ?d sample_store]
  have a: "fst (fst (patch_device ?b (JObj [(''ip'', JNull)]) sample_store)) = 400"
    and a': "snd (patch_device ?b (JObj [(''ip'', JNull)]) sample_store) = sample_store"
    using t1 [THEN conjunct1] c1 by blast+
  have b: "fst (fst (patch_link ?d (JObj [(''label'', JNull)]) sample_store)) = 400"
    and b': "snd (patch_link ?d (JObj [(''label'', JNull)]) sample_store) = sample_store"
    using t2 [THEN conjunct2, THEN conjunct1] c2 by blast+
  have k: "text_fields_kept sample_store (snd (routes sample_env (PATCH_device ?b (JObj ?p)) sample_store))"
    using t3 [THEN conjunct2, THEN conjunct2, THEN conjunct1] dd dl by blast
  have x: "\<exists>d'. fst (patch_device ?b (JObj ?p) sample_store) = (200, DeviceRow d') \<and>
         d_ip d' = Some ''10.0.0.9''"
    using t3 [THEN conjunct2, THEN conjunct2, THEN conjunct2, THEN conjunct2, THEN conjunct2,
        THEN conjunct1] wf v ck m ex by blast
  have "patch_link ?d (JObj ?pl) sample_store =
        ((case filter (\<lambda>l. l_id l = uuid_in ?d) (links sample_store) of
            [] \<Rightarrow> (404, Message ''Link not found'')
          | l # ls \<Rightarrow> (200, LinkRow (link_patch ?pl l))),
         sample_store\<lparr>links := map (\<lambda>l. if l_id l = uuid_in ?d then link_patch ?pl l else l)
                                  (links sample_store)\<rparr>)"
    using t4 [THEN conjunct2, THEN conjunct2, THEN conjunct2, THEN conjunct2, THEN conjunct2,
        THEN conjunct2] wfd vl ckl fr by blast
  then have y: "patch_link ?d (JObj ?pl) sample_store =
     ((200, LinkRow (link_ab_docked\<lparr>l_label := Some ''core'', l_from_handle := Some ''c''\<rparr>)),
      sample_store\<lparr>links :=
        [link_ab, link_ab_docked\<lparr>l_label := Some ''core'', l_from_handle := Some ''c''\<rparr>]\<rparr>)"
    by (simp add: uuid_defs sample_defs link_patch_def)
  show ?thesis
    by (intro conjI) (rule a a' b b' dd dl k x y)+
qed

end
